theory Spec2Isabelle
  imports Main
begin

section \<open>Policy Gate: glob matching\<close>

text \<open>
  JavaScript strings are modelled as \<^typ>\<open>string\<close>; a \<^typ>\<open>char\<close> stands for one UTF-16
  code unit below 256. The section sign used as a temporary marker by \<open>matchGlob\<close> is the
  code unit 0xA7, the backslash is 0x5C.
\<close>

abbreviation bslash :: char where "bslash \<equiv> CHR 0x5C"
abbreviation sect :: char where "sect \<equiv> CHR 0xA7"

text \<open>
  \<open>s.replace(/pat/g, rep)\<close> for a regular expression that denotes the literal, non-empty
  text \<open>pat\<close> and a replacement text without dollar signs: leftmost occurrences are
  replaced, scanning resumes after each occurrence.
\<close>

function replace_all :: "string \<Rightarrow> string \<Rightarrow> string \<Rightarrow> string" where
  "replace_all pat rep [] = []"
| "replace_all pat rep (c # cs) =
     (if pat \<noteq> [] \<and> take (length pat) (c # cs) = pat
      then rep @ replace_all pat rep (drop (length pat) (c # cs))
      else c # replace_all pat rep cs)"
  by pat_completeness auto
termination
  by (relation "measure (\<lambda>(pat, rep, s). length s)") auto

text \<open>The five replacements of \<open>matchGlob\<close>, in the order of the source.\<close>

definition glob_to_regex :: "string \<Rightarrow> string" where
  "glob_to_regex pattern =
     replace_all ''?'' ''.''
       (replace_all [sect, sect, sect] ''.*''
         (replace_all ''*'' ''[^/]*''
           (replace_all ''**'' [sect, sect, sect]
             (replace_all ''.'' [bslash, CHR ''.''] pattern))))"

text \<open>
  The regular expressions that the translation produces from a glob without further
  regular-expression syntax: a sequence of atoms, each optionally starred, between the
  anchors \<open>^\<close> and \<open>$\<close>. An atom is a literal character (an ordinary character, or an
  escaped dot), the dot (any character but a line terminator), or the class \<open>[^/]\<close>.
\<close>

datatype atom = Lit char | AnyChar | NotSlash

datatype item = One atom | Star atom

type_synonym regex = "item list"

definition ordinary :: "char \<Rightarrow> bool" where
  "ordinary c \<longleftrightarrow> c \<notin> set (bslash # ''^$.*+?()[]{}|'')"

fun parse_atom :: "string \<Rightarrow> (atom \<times> string) option" where
  "parse_atom [] = None"
| "parse_atom (c # cs) =
     (if c = CHR ''.'' then Some (AnyChar, cs)
      else if c = bslash then
        (case cs of [] \<Rightarrow> None
         | d # ds \<Rightarrow> if d = CHR ''.'' then Some (Lit (CHR ''.''), ds) else None)
      else if c = CHR ''['' then
        (if take 3 cs = ''^/]'' then Some (NotSlash, drop 3 cs) else None)
      else if ordinary c then Some (Lit c, cs)
      else None)"

lemma parse_atom_shorter: "parse_atom s = Some (a, r) \<Longrightarrow> length r < length s"
  by (cases s) (auto split: if_splits list.splits)

function parse_body :: "string \<Rightarrow> regex option" where
  "parse_body s =
     (if s = ''$'' then Some []
      else case parse_atom s of
        None \<Rightarrow> None
      | Some (a, r) \<Rightarrow>
          (case r of
             [] \<Rightarrow> map_option ((#) (One a)) (parse_body r)
           | q # r' \<Rightarrow>
               if q = CHR ''*'' then map_option ((#) (Star a)) (parse_body r')
               else map_option ((#) (One a)) (parse_body r)))"
  by pat_completeness auto
termination
  by (relation "measure length") (auto dest: parse_atom_shorter)

declare parse_body.simps [simp del]

text \<open>
  \<open>new RegExp(src)\<close> on this fragment; \<open>None\<close> when the source text leaves the fragment
  (the constructor may then throw a SyntaxError, or build an expression that is not
  modelled here).
\<close>

definition RegExp_new :: "string \<Rightarrow> regex option" where
  "RegExp_new src =
     (case src of [] \<Rightarrow> None
      | c # cs \<Rightarrow> if c = CHR ''^'' then parse_body cs else None)"

fun atom_matches :: "atom \<Rightarrow> char \<Rightarrow> bool" where
  "atom_matches (Lit c) d = (d = c)"
| "atom_matches AnyChar d = (d \<noteq> CHR 0x0A \<and> d \<noteq> CHR 0x0D)"
| "atom_matches NotSlash d = (d \<noteq> CHR ''/'')"

text \<open>\<open>regex.test(str)\<close> for an expression anchored at both ends.\<close>

fun RegExp_test :: "regex \<Rightarrow> string \<Rightarrow> bool" where
  "RegExp_test [] s = (s = [])"
| "RegExp_test (One a # r) [] = False"
| "RegExp_test (One a # r) (c # cs) = (atom_matches a c \<and> RegExp_test r cs)"
| "RegExp_test (Star a # r) [] = RegExp_test r []"
| "RegExp_test (Star a # r) (c # cs) =
     (RegExp_test r (c # cs) \<or> (atom_matches a c \<and> RegExp_test (Star a # r) cs))"

definition matchGlob :: "string \<Rightarrow> string \<Rightarrow> bool option" where
  "matchGlob str pattern =
     map_option (\<lambda>regex. RegExp_test regex str)
       (RegExp_new (''^'' @ glob_to_regex pattern @ ''$''))"

section \<open>Glob patterns read directly\<close>

text \<open>
  A reading of glob patterns that does not go through regular expressions, for
  comparison with \<open>matchGlob\<close>: a pattern is a sequence of tokens, \<open>**\<close> taken before \<open>*\<close>.
\<close>

datatype glob_token = AnyPath | AnySegment | AnyOne | Exactly char

fun glob_tokens :: "string \<Rightarrow> glob_token list" where
  "glob_tokens [] = []"
| "glob_tokens (c # cs) =
     (if c = CHR ''*'' then
        (case cs of
           [] \<Rightarrow> [AnySegment]
         | d # ds \<Rightarrow>
             if d = CHR ''*'' then AnyPath # glob_tokens ds
             else AnySegment # glob_tokens cs)
      else if c = CHR ''?'' then AnyOne # glob_tokens cs
      else Exactly c # glob_tokens cs)"

definition line_terminator :: "char \<Rightarrow> bool" where
  "line_terminator c \<longleftrightarrow> c = CHR 0x0A \<or> c = CHR 0x0D"

text \<open>
  The whole candidate is matched: \<open>**\<close> stands for any run of characters, \<open>/\<close> included
  (but no line terminator); \<open>*\<close> for any run of characters other than \<open>/\<close>; \<open>?\<close> for one
  character (no line terminator); any other character for itself. A run may be empty.
\<close>

primrec glob_semantics :: "glob_token list \<Rightarrow> string \<Rightarrow> bool" where
  "glob_semantics [] s = (s = [])"
| "glob_semantics (t # ts) s =
     (case t of
        AnyPath \<Rightarrow>
          (\<exists>k \<in> {0..length s}.
             list_all (\<lambda>c. \<not> line_terminator c) (take k s) \<and> glob_semantics ts (drop k s))
      | AnySegment \<Rightarrow>
          (\<exists>k \<in> {0..length s}.
             list_all (\<lambda>c. c \<noteq> CHR ''/'') (take k s) \<and> glob_semantics ts (drop k s))
      | AnyOne \<Rightarrow>
          (case s of [] \<Rightarrow> False | c # cs \<Rightarrow> \<not> line_terminator c \<and> glob_semantics ts cs)
      | Exactly x \<Rightarrow>
          (case s of [] \<Rightarrow> False | c # cs \<Rightarrow> c = x \<and> glob_semantics ts cs))"

text \<open>
  The characters of a glob pattern without regular-expression syntax of its own and
  without the marker character: the three glob characters \<open>*\<close>, \<open>?\<close>, \<open>.\<close> and the
  characters that are ordinary in a regular expression.
\<close>

definition glob_char :: "char \<Rightarrow> bool" where
  "glob_char c \<longleftrightarrow>
     c = CHR ''*'' \<or> c = CHR ''?'' \<or> c = CHR ''.'' \<or> (ordinary c \<and> c \<noteq> sect)"

text \<open>
  The regular-expression text and the parsed item that correspond to one token, and the
  tokens of patterns made of glob characters.
\<close>

definition render :: "glob_token \<Rightarrow> string" where
  "render t =
     (case t of
        AnyPath \<Rightarrow> ''.*''
      | AnySegment \<Rightarrow> ''[^/]*''
      | AnyOne \<Rightarrow> ''.''
      | Exactly c \<Rightarrow> if c = CHR ''.'' then [bslash, CHR ''.''] else [c])"

definition item_of :: "glob_token \<Rightarrow> item" where
  "item_of t =
     (case t of
        AnyPath \<Rightarrow> Star AnyChar
      | AnySegment \<Rightarrow> Star NotSlash
      | AnyOne \<Rightarrow> One AnyChar
      | Exactly c \<Rightarrow> One (Lit c))"

definition token_ok :: "glob_token \<Rightarrow> bool" where
  "token_ok t \<longleftrightarrow> (case t of Exactly c \<Rightarrow> c = CHR ''.'' \<or> ordinary c | _ \<Rightarrow> True)"

section \<open>Policy Gate: contracts\<close>

datatype scope = Pipeline | Step | Action | Agent

datatype effect = Allow | Deny

text \<open>A rule's \<open>target\<close> is a single name or an array of names.\<close>

datatype target = Single string | Many "string list"

record time_restrictions =
  startHour :: "int option"
  endHour :: "int option"
  daysOfWeek :: "int list option"

record conditions =
  allowedFiles :: "string list option"
  deniedFiles :: "string list option"
  allowedCommands :: "string list option"
  deniedCommands :: "string list option"
  cond_requiresApproval :: "bool option"
  timeRestrictions :: "time_restrictions option"

record policy_rule =
  rule_id :: string
  appliesTo :: scope
  rule_target :: target
  rule_effect :: effect
  rule_conditions :: "conditions option"

record policy_config =
  rules :: "policy_rule list"
  defaultEffect :: effect
  defaultRequiresApproval :: bool

record payload =
  pl_diff :: "string option"
  pl_content :: "string option"
  pl_command :: "string option"
  pl_message :: "string option"

record action =
  act_type :: string
  act_targets :: "string list option"
  act_payload :: payload
  act_reasoning :: string
  act_requiresApproval :: bool

text \<open>The object returned by a check: \<open>{allowed, reason?, requiresApproval?}\<close>.\<close>

record check_result =
  allowed :: bool
  reason :: "string option"
  requiresApproval :: "bool option"

text \<open>The two components of \<open>new Date()\<close> that \<open>checkAction\<close> reads.\<close>

record clock =
  getHours :: int
  getDay :: int

section \<open>Policy Gate: number and name rendering in messages\<close>

fun show_nat :: "nat \<Rightarrow> string" where
  "show_nat n =
     (if n < 10 then [''0123456789'' ! n]
      else show_nat (n div 10) @ [''0123456789'' ! (n mod 10)])"

declare show_nat.simps [simp del]

definition show_int :: "int \<Rightarrow> string" where
  "show_int i = (if i < 0 then ''-'' @ show_nat (nat (- i)) else show_nat (nat i))"

text \<open>A possibly undefined string inside a template literal.\<close>

definition js_str :: "string option \<Rightarrow> string" where
  "js_str v = (case v of None \<Rightarrow> ''undefined'' | Some s \<Rightarrow> s)"

text \<open>\<open>!v\<close> for a value that is a string or undefined.\<close>

definition falsy :: "string option \<Rightarrow> bool" where
  "falsy v \<longleftrightarrow> (case v of None \<Rightarrow> True | Some s \<Rightarrow> s = [])"

section \<open>Policy Gate: pipeline and step checks\<close>

text \<open>\<open>r.target === x || (Array.isArray(r.target) && r.target.includes(x))\<close>\<close>

definition target_matches :: "target \<Rightarrow> string option \<Rightarrow> bool" where
  "target_matches t x =
     (case x of None \<Rightarrow> False
      | Some v \<Rightarrow> (case t of Single n \<Rightarrow> n = v | Many ns \<Rightarrow> v \<in> set ns))"

definition applies :: "scope \<Rightarrow> string option \<Rightarrow> policy_rule \<Rightarrow> bool" where
  "applies sc x r \<longleftrightarrow> appliesTo r = sc \<and> target_matches (rule_target r) x"

definition allow_plain :: check_result where
  "allow_plain = \<lparr>allowed = True, reason = None, requiresApproval = None\<rparr>"

definition denied :: "string \<Rightarrow> check_result" where
  "denied why = \<lparr>allowed = False, reason = Some why, requiresApproval = None\<rparr>"

definition checkPipeline :: "policy_config \<Rightarrow> string option \<Rightarrow> check_result" where
  "checkPipeline config pipeline_id =
     (case find (applies Pipeline pipeline_id) (rules config) of
        Some rule \<Rightarrow>
          if rule_effect rule = Deny
          then denied (''Pipeline '' @ js_str pipeline_id @ '' is denied by policy rule: ''
                       @ rule_id rule)
          else allow_plain
      | None \<Rightarrow> allow_plain)"

definition checkStep :: "policy_config \<Rightarrow> string option \<Rightarrow> check_result" where
  "checkStep config agent =
     (case find (applies Agent agent) (rules config) of
        Some rule \<Rightarrow>
          if rule_effect rule = Deny
          then denied (''Agent '' @ js_str agent @ '' is denied by policy rule: ''
                       @ rule_id rule)
          else allow_plain
      | None \<Rightarrow> allow_plain)"

section \<open>Policy Gate: action checks\<close>

text \<open>
  In the results of the scans below the outer \<open>None\<close> means that \<open>matchGlob\<close> met a pattern
  outside the modelled fragment; \<open>Some None\<close> means that the scan ran to its end without a
  \<open>return\<close>.
\<close>

text \<open>Denied files, inner loop over the patterns for one target.\<close>

fun denied_patterns :: "effect \<Rightarrow> string \<Rightarrow> string list \<Rightarrow> string option option" where
  "denied_patterns eff t [] = Some None"
| "denied_patterns eff t (p # ps) =
     (case matchGlob t p of
        None \<Rightarrow> None
      | Some m \<Rightarrow> if m \<and> eff = Deny then Some (Some p) else denied_patterns eff t ps)"

text \<open>Denied files, outer loop over the targets: the first (target, pattern) that returns.\<close>

fun denied_scan ::
  "effect \<Rightarrow> string list \<Rightarrow> string list \<Rightarrow> (string \<times> string) option option" where
  "denied_scan eff [] pats = Some None"
| "denied_scan eff (t # ts) pats =
     (case denied_patterns eff t pats of
        None \<Rightarrow> None
      | Some (Some p) \<Rightarrow> Some (Some (t, p))
      | Some None \<Rightarrow> denied_scan eff ts pats)"

text \<open>
  Allowed files, inner loop: sets the flag and breaks at the first matching pattern; the
  flag \<open>fileAllowed\<close> comes in with the value the previous targets left.
\<close>

fun allowed_patterns :: "bool \<Rightarrow> string \<Rightarrow> string list \<Rightarrow> bool option" where
  "allowed_patterns fileAllowed t [] = Some fileAllowed"
| "allowed_patterns fileAllowed t (p # ps) =
     (case matchGlob t p of
        None \<Rightarrow> None
      | Some m \<Rightarrow> if m then Some True else allowed_patterns fileAllowed t ps)"

text \<open>
  Allowed files, outer loop: \<open>fileAllowed\<close> is declared before the loop over the targets
  and carried from one target to the next. The result is the target that is reported.
\<close>

fun allowed_scan ::
  "effect \<Rightarrow> bool \<Rightarrow> string list \<Rightarrow> string list \<Rightarrow> string option option" where
  "allowed_scan eff fileAllowed [] pats = Some None"
| "allowed_scan eff fileAllowed (t # ts) pats =
     (case allowed_patterns fileAllowed t pats of
        None \<Rightarrow> None
      | Some fa \<Rightarrow>
          if \<not> fa \<and> eff = Allow then Some (Some t) else allowed_scan eff fa ts pats)"

definition cond_of :: "policy_rule \<Rightarrow> (conditions \<Rightarrow> 'a option) \<Rightarrow> 'a option" where
  "cond_of rule f = (case rule_conditions rule of None \<Rightarrow> None | Some c \<Rightarrow> f c)"

definition check_deniedFiles :: "policy_rule \<Rightarrow> action \<Rightarrow> string option option" where
  "check_deniedFiles rule a =
     (case (cond_of rule deniedFiles, act_targets a) of
        (Some pats, Some ts) \<Rightarrow>
          (case denied_scan (rule_effect rule) ts pats of
             None \<Rightarrow> None
           | Some None \<Rightarrow> Some None
           | Some (Some (t, p)) \<Rightarrow>
               Some (Some (''File '' @ t @ '' matches denied pattern '' @ p
                           @ '' (rule: '' @ rule_id rule @ '')'')))
      | _ \<Rightarrow> Some None)"

definition check_allowedFiles :: "policy_rule \<Rightarrow> action \<Rightarrow> string option option" where
  "check_allowedFiles rule a =
     (case (cond_of rule allowedFiles, act_targets a) of
        (Some pats, Some ts) \<Rightarrow>
          (case allowed_scan (rule_effect rule) False ts pats of
             None \<Rightarrow> None
           | Some None \<Rightarrow> Some None
           | Some (Some t) \<Rightarrow>
               Some (Some (''File '' @ t @ '' not in allowed patterns (rule: ''
                           @ rule_id rule @ '')'')))
      | _ \<Rightarrow> Some None)"

text \<open>
  \<open>matchRegex\<close>: the regular-expression engine of the platform is a parameter \<open>re\<close>, with
  \<open>re pattern str = None\<close> when \<open>new RegExp(pattern)\<close> throws; the \<open>catch\<close> turns that
  into \<open>false\<close>.
\<close>

definition matchRegex :: "(string \<Rightarrow> string \<Rightarrow> bool option) \<Rightarrow> string \<Rightarrow> string \<Rightarrow> bool" where
  "matchRegex re str pattern = (case re pattern str of None \<Rightarrow> False | Some b \<Rightarrow> b)"

text \<open>\<open>action.payload?.command\<close> when it is truthy.\<close>

definition command_of :: "action \<Rightarrow> string option" where
  "command_of a =
     (case pl_command (act_payload a) of
        None \<Rightarrow> None
      | Some c \<Rightarrow> if c = [] then None else Some c)"

definition check_deniedCommands ::
  "(string \<Rightarrow> string \<Rightarrow> bool option) \<Rightarrow> policy_rule \<Rightarrow> action \<Rightarrow> string option" where
  "check_deniedCommands re rule a =
     (case (cond_of rule deniedCommands, command_of a) of
        (Some pats, Some cmd) \<Rightarrow>
          (if rule_effect rule = Deny
           then (case find (matchRegex re cmd) pats of
                   None \<Rightarrow> None
                 | Some p \<Rightarrow>
                     Some (''Command matches denied pattern '' @ p
                           @ '' (rule: '' @ rule_id rule @ '')''))
           else None)
      | _ \<Rightarrow> None)"

definition check_allowedCommands ::
  "(string \<Rightarrow> string \<Rightarrow> bool option) \<Rightarrow> policy_rule \<Rightarrow> action \<Rightarrow> string option" where
  "check_allowedCommands re rule a =
     (case (cond_of rule allowedCommands, command_of a) of
        (Some pats, Some cmd) \<Rightarrow>
          (let commandAllowed = (find (matchRegex re cmd) pats \<noteq> None)
           in if \<not> commandAllowed \<and> rule_effect rule = Allow
              then Some (''Command not in allowed patterns (rule: '' @ rule_id rule @ '')'')
              else None)
      | _ \<Rightarrow> None)"

definition check_time :: "clock \<Rightarrow> policy_rule \<Rightarrow> string option" where
  "check_time now rule =
     (case cond_of rule timeRestrictions of
        None \<Rightarrow> None
      | Some tr \<Rightarrow>
          (let hour = getHours now; day = getDay now;
               window =
                 (case (startHour tr, endHour tr) of
                    (Some sh, Some eh) \<Rightarrow>
                      if hour < sh \<or> hour \<ge> eh
                      then Some (''Action not allowed at this time (allowed: '' @ show_int sh
                                 @ '':00-'' @ show_int eh @ '':00)'')
                      else None
                  | _ \<Rightarrow> None)
           in case window of
                Some why \<Rightarrow> Some why
              | None \<Rightarrow>
                  (case daysOfWeek tr of
                     Some days \<Rightarrow>
                       if day \<notin> set days then Some ''Action not allowed on this day of week''
                       else None
                   | None \<Rightarrow> None)))"

text \<open>
  The loop over the matching rules, with the running value of \<open>requiresApproval\<close>.
\<close>

fun check_rules ::
  "(string \<Rightarrow> string \<Rightarrow> bool option) \<Rightarrow> clock \<Rightarrow> action \<Rightarrow> policy_rule list \<Rightarrow> bool
   \<Rightarrow> check_result option" where
  "check_rules re now a [] ra =
     Some \<lparr>allowed = True, reason = None, requiresApproval = Some ra\<rparr>"
| "check_rules re now a (rule # rest) ra =
     (case check_deniedFiles rule a of
        None \<Rightarrow> None
      | Some (Some why) \<Rightarrow> Some (denied why)
      | Some None \<Rightarrow>
     (case check_allowedFiles rule a of
        None \<Rightarrow> None
      | Some (Some why) \<Rightarrow> Some (denied why)
      | Some None \<Rightarrow>
     (case check_deniedCommands re rule a of
        Some why \<Rightarrow> Some (denied why)
      | None \<Rightarrow>
     (case check_allowedCommands re rule a of
        Some why \<Rightarrow> Some (denied why)
      | None \<Rightarrow>
     (let ra' = (case cond_of rule cond_requiresApproval of Some b \<Rightarrow> b | None \<Rightarrow> ra)
      in case check_time now rule of
           Some why \<Rightarrow> Some (denied why)
         | None \<Rightarrow> check_rules re now a rest ra')))))"

definition matchingRules :: "policy_config \<Rightarrow> action \<Rightarrow> policy_rule list" where
  "matchingRules config a = filter (applies Action (Some (act_type a))) (rules config)"

definition checkAction ::
  "(string \<Rightarrow> string \<Rightarrow> bool option) \<Rightarrow> clock \<Rightarrow> policy_config \<Rightarrow> action
   \<Rightarrow> check_result option" where
  "checkAction re now config a =
     check_rules re now a (matchingRules config a) (defaultRequiresApproval config)"

section \<open>Policy Gate: the default policy\<close>

text \<open>\<open>getDefaultPolicy\<close> (the field \<open>version\<close> is not part of the model).\<close>

definition getDefaultPolicy :: policy_config where
  "getDefaultPolicy =
     \<lparr>rules =
        [\<lparr>rule_id = ''deny-secrets'', appliesTo = Action,
          rule_target = Many [''MODIFY_FILE'', ''DELETE_FILE'', ''CREATE_FILE''],
          rule_effect = Deny,
          rule_conditions =
            Some \<lparr>allowedFiles = None,
                  deniedFiles =
                    Some [''**/.env'', ''**/.env.*'', ''**/secrets/**'', ''**/credentials/**'',
                          ''**/*.key'', ''**/*.pem'', ''**/id_rsa*''],
                  allowedCommands = None, deniedCommands = None,
                  cond_requiresApproval = None, timeRestrictions = None\<rparr>\<rparr>,
         \<lparr>rule_id = ''deny-dangerous-commands'', appliesTo = Action,
          rule_target = Single ''RUN_COMMAND'', rule_effect = Deny,
          rule_conditions =
            Some \<lparr>allowedFiles = None, deniedFiles = None, allowedCommands = None,
                  deniedCommands =
                    Some [''rm -rf /'', ''dd if='', ''mkfs'' @ [bslash, CHR ''.''],
                          ''wget.*'' @ [bslash] @ ''|.*sh'',
                          ''curl.*'' @ [bslash] @ ''|.*bash'',
                          '':(){ :|:& };:'', ''chmod -R 777 /''],
                  cond_requiresApproval = None, timeRestrictions = None\<rparr>\<rparr>,
         \<lparr>rule_id = ''approve-deletions'', appliesTo = Action,
          rule_target = Single ''DELETE_FILE'', rule_effect = Allow,
          rule_conditions =
            Some \<lparr>allowedFiles = None, deniedFiles = None, allowedCommands = None,
                  deniedCommands = None, cond_requiresApproval = Some True,
                  timeRestrictions = None\<rparr>\<rparr>,
         \<lparr>rule_id = ''approve-commands'', appliesTo = Action,
          rule_target = Single ''RUN_COMMAND'', rule_effect = Allow,
          rule_conditions =
            Some \<lparr>allowedFiles = None, deniedFiles = None, allowedCommands = None,
                  deniedCommands = None, cond_requiresApproval = Some True,
                  timeRestrictions = None\<rparr>\<rparr>],
      defaultEffect = Allow, defaultRequiresApproval = True\<rparr>"

section \<open>Pipeline Runner: contracts\<close>

text \<open>Step output data and context values are JSON-like values.\<close>

datatype json =
  JNull | JBool bool | JNum int | JStr string | JArr "json list" | JObj "(string \<times> json) list"

text \<open>
  A step of a pipeline definition as \<open>registerPipeline\<close> receives it: a field that may be
  missing is an option. The function-valued fields (\<open>contextBuilder\<close>, \<open>resultTransform\<close>)
  act through the parameters \<open>prepare\<close> and \<open>invoke\<close> of the engine below.
\<close>

record pipeline_step =
  step_id :: "string option"
  step_name :: "string option"
  step_agent :: "string option"
  step_method :: "string option"
  step_inputFrom :: "string option"
  step_query :: "string option"
  step_requiresApproval :: bool
  step_timeout :: "nat option"
  continueOnError :: bool

record pipeline_definition =
  pd_id :: "string option"
  pd_version :: "string option"
  pd_name :: "string option"
  pd_description :: "string option"
  pd_steps :: "pipeline_step list option"
  pd_defaultContext :: "string \<rightharpoonup> json"
  pd_requiresApproval :: bool

text \<open>
  The execution context: the named fields, and the map from step id to step output kept
  under the key \<open>stepResults\<close>.
\<close>

record pipeline_context =
  ctx_fields :: "string \<rightharpoonup> json"
  ctx_stepResults :: "string \<rightharpoonup> json"

text \<open>An \<open>error\<close> field: \<open>null\<close>, absent, or a message.\<close>

datatype jsmsg = Null | Undefined | Msg string

text \<open>
  Wall-clock fields (\<open>timestamp\<close>, \<open>startedAt\<close>, \<open>completedAt\<close>, \<open>totalDuration\<close>) and the
  provider's \<open>signature\<close> are not part of the model; \<open>duration\<close> is kept because the
  \<open>catch\<close> branch of the runner sets it to 0.
\<close>

record step_result =
  sr_stepId :: "string option"
  sr_stepName :: "string option"
  sr_success :: bool
  sr_data :: json
  sr_error :: jsmsg
  sr_duration :: nat
  sr_actions :: "action list option"

record pipeline_result =
  pr_pipelineId :: "string option"
  pr_pipelineName :: "string option"
  pr_success :: bool
  pr_steps :: "step_result list"
  pr_actions :: "action list"
  pr_error :: jsmsg
  pr_context :: pipeline_context

datatype approval_request =
  PipelineApproval "string option" "string option"
| StepApproval "string option" "string option" string

text \<open>What the provider call of \<open>executeStep\<close> delivers when nothing is thrown.\<close>

record agent_outcome =
  ao_success :: bool
  ao_data :: json
  ao_duration :: nat
  ao_actions :: "action list"

text \<open>
  A value that is thrown, or with which a promise is rejected: \<open>undefined\<close> or \<open>null\<close>, or
  any other value, given by what reading its property \<open>message\<close> yields. \<open>new Error(text)\<close>
  is a value whose message is the text.
\<close>

datatype thrown = Nullish | Thrown jsmsg

abbreviation Error :: "string \<Rightarrow> thrown" where
  "Error text \<equiv> Thrown (Msg text)"

text \<open>\<open>error.message\<close>: reading a property of \<open>undefined\<close> or \<open>null\<close> throws a TypeError.\<close>

definition message_of :: "thrown \<Rightarrow> jsmsg option" where
  "message_of error = (case error of Nullish \<Rightarrow> None | Thrown message \<Rightarrow> Some message)"

text \<open>
  What escapes from \<open>runPipeline\<close>: a value thrown by the function or by one of its
  callees, or the TypeError that the runtime raises when the named property of
  \<open>undefined\<close> or \<open>null\<close> is read.
\<close>

datatype escape = Propagated thrown | TypeErrorReading string

text \<open>
  The engine: its registry, its options, and the external collaborators as parameters.
  What a collaborator throws is on the left of a sum.
  \<^item> \<open>prepare\<close> stands for \<open>buildStepInput\<close> and the context builder of a step (all that
    \<open>executeStep\<close> computes before its policy check);
  \<^item> \<open>invoke\<close> stands for the lookup of agent and method, the provider call raced against
    the timeout, the result transform and \<open>extractActions\<close> (all that \<open>executeStep\<close> does
    after the approval);
  \<^item> \<open>onApprovalRequired\<close> is the optional approval callback;
  \<^item> \<open>onStepComplete\<close> is the optional observer. It is handed the StepResult object
    itself: its outcome is the content of that object after the call (as the observer
    has left its fields) and the value it threw, if it threw. The values held in the
    fields (data, actions) are taken as immutable.

  The collaborators are functions of what they are handed: the step functions and the
  provider are taken to leave the list of earlier results, the context and the pipeline
  definition as they are.
\<close>

record engine =
  pipelines :: "string \<rightharpoonup> pipeline_definition"
  policyEngine :: "policy_config option"
  autoApprove :: bool
  onApprovalRequired :: "(approval_request \<Rightarrow> thrown + bool) option"
  onStepComplete :: "(step_result \<Rightarrow> nat \<Rightarrow> nat \<Rightarrow> step_result \<times> thrown option) option"
  prepare :: "pipeline_step \<Rightarrow> step_result list \<Rightarrow> pipeline_context \<Rightarrow> thrown + string"
  invoke :: "pipeline_step \<Rightarrow> string \<Rightarrow> pipeline_context \<Rightarrow> thrown + agent_outcome"

section \<open>Pipeline Runner: registration\<close>

text \<open>The \<open>forEach\<close> of \<open>validatePipelineDefinition\<close>: the message of the first throw.\<close>

fun validate_steps :: "nat \<Rightarrow> pipeline_step list \<Rightarrow> string option" where
  "validate_steps index [] = None"
| "validate_steps index (step # rest) =
     (if falsy (step_id step) then Some (''Step '' @ show_nat index @ '' missing id'')
      else if falsy (step_agent step)
        then Some (''Step '' @ js_str (step_id step) @ '' missing agent'')
      else if falsy (step_method step)
        then Some (''Step '' @ js_str (step_id step) @ '' missing method'')
      else if falsy (step_inputFrom step)
        then Some (''Step '' @ js_str (step_id step) @ '' missing inputFrom'')
      else validate_steps (Suc index) rest)"

definition validatePipelineDefinition :: "pipeline_step list \<Rightarrow> string + bool" where
  "validatePipelineDefinition steps =
     (case validate_steps 0 steps of Some e \<Rightarrow> Inl e | None \<Rightarrow> Inr True)"

definition registerPipeline :: "engine \<Rightarrow> pipeline_definition \<Rightarrow> string + engine" where
  "registerPipeline eng pipelineDefinition =
     (if falsy (pd_id pipelineDefinition) then Inl ''Pipeline must have an id''
      else case pd_steps pipelineDefinition of
        None \<Rightarrow> Inl ''Pipeline must have a steps array''
      | Some steps \<Rightarrow>
          (case validatePipelineDefinition steps of
             Inl e \<Rightarrow> Inl e
           | Inr _ \<Rightarrow>
               Inr (eng\<lparr>pipelines :=
                      (pipelines eng)(js_str (pd_id pipelineDefinition)
                                       \<mapsto> pipelineDefinition)\<rparr>)))"

section \<open>Pipeline Runner: executing one step\<close>

definition requestApproval :: "engine \<Rightarrow> approval_request \<Rightarrow> thrown + bool" where
  "requestApproval eng request =
     (case onApprovalRequired eng of Some callback \<Rightarrow> callback request | None \<Rightarrow> Inr True)"

definition executeStep ::
  "engine \<Rightarrow> pipeline_step \<Rightarrow> step_result list \<Rightarrow> pipeline_context \<Rightarrow> thrown + step_result" where
  "executeStep eng step previousResults ctx =
     (case prepare eng step previousResults ctx of
        Inl e \<Rightarrow> Inl e
      | Inr input \<Rightarrow>
     (let policyCheck =
            (case policyEngine eng of
               Some config \<Rightarrow> checkStep config (step_agent step)
             | None \<Rightarrow> allow_plain)
      in if \<not> allowed policyCheck
         then Inl (Error (''Step blocked by policy: '' @ js_str (reason policyCheck)))
         else
     (case (if step_requiresApproval step \<and> \<not> autoApprove eng
            then requestApproval eng
                   (StepApproval (step_name step) (step_agent step) input)
            else Inr True) of
        Inl e \<Rightarrow> Inl e
      | Inr approved \<Rightarrow>
          if \<not> approved then Inl (Error ''Step execution rejected by user'')
          else
     (case invoke eng step input ctx of
        Inl e \<Rightarrow> Inl e
      | Inr agentResult \<Rightarrow>
          Inr \<lparr>sr_stepId = step_id step, sr_stepName = step_name step,
               sr_success = ao_success agentResult, sr_data = ao_data agentResult,
               sr_error = Undefined, sr_duration = ao_duration agentResult,
               sr_actions = Some (ao_actions agentResult)\<rparr>))))"

section \<open>Pipeline Runner: the run\<close>

text \<open>
  What a run does to the outside: the log line at the start of each iteration of the step
  loop (position, number of steps, step name), and each call of the observer
  \<open>onStepComplete\<close> with its arguments.
\<close>

datatype event =
  StepLog nat nat "string option"
| Observed step_result nat nat

text \<open>The local variables of \<open>runPipeline\<close> that the step loop updates, and the events.\<close>

record run_state =
  stepResults :: "step_result list"
  actions :: "action list"
  executionContext :: pipeline_context
  pipelineSuccess :: bool
  pipelineError :: jsmsg
  events :: "event list"

text \<open>The StepResult that the \<open>catch\<close> block of the loop body builds.\<close>

definition failure_result :: "pipeline_step \<Rightarrow> jsmsg \<Rightarrow> step_result" where
  "failure_result step message =
     \<lparr>sr_stepId = step_id step, sr_stepName = step_name step, sr_success = False,
      sr_data = JNull, sr_error = message, sr_duration = 0, sr_actions = None\<rparr>"

text \<open>
  The \<open>catch\<close> block of the loop body; the flag says whether the loop breaks. When the
  caught value is \<open>undefined\<close> or \<open>null\<close>, reading \<open>error.message\<close> throws, and that
  TypeError leaves \<open>runPipeline\<close>.
\<close>

definition catch_block ::
  "pipeline_step \<Rightarrow> thrown \<Rightarrow> run_state \<Rightarrow> escape + run_state \<times> bool" where
  "catch_block step error st =
     (case message_of error of
        None \<Rightarrow> Inl (TypeErrorReading ''message'')
      | Some message \<Rightarrow>
          (let st1 = st\<lparr>stepResults := stepResults st @ [failure_result step message]\<rparr>
           in if \<not> continueOnError step
              then Inr (st1\<lparr>pipelineSuccess := False, pipelineError := message\<rparr>, True)
              else Inr (st1, False)))"

text \<open>
  \<open>object[key] = value\<close> on an object created as \<open>{}\<close>, the map holding the object's own
  properties: the key \<open>__proto__\<close> names the prototype, not a property of the object.
\<close>

definition assign_property ::
  "(string \<rightharpoonup> json) \<Rightarrow> string \<Rightarrow> json \<Rightarrow> (string \<rightharpoonup> json)" where
  "assign_property object key v = (if key = ''__proto__'' then object else object(key \<mapsto> v))"

text \<open>
  The statements of the \<open>try\<close> block after \<open>executeStep\<close> has returned: push the result,
  store the data under the step id, collect the actions.
\<close>

definition record_result :: "pipeline_step \<Rightarrow> step_result \<Rightarrow> run_state \<Rightarrow> run_state" where
  "record_result step stepResult st =
     st\<lparr>stepResults := stepResults st @ [stepResult],
        executionContext :=
          (executionContext st)\<lparr>ctx_stepResults :=
             assign_property (ctx_stepResults (executionContext st))
               (js_str (step_id step)) (sr_data stepResult)\<rparr>,
        actions :=
          actions st @ (case sr_actions stepResult of Some acts \<Rightarrow> acts | None \<Rightarrow> [])\<rparr>"

text \<open>
  The call of the observer, when one is configured, on the StepResult that has just been
  pushed: the object is the last element of \<open>stepResults\<close>, so what the observer does to
  it shows there. The result is the state, the StepResult as the observer has left it,
  and the value the observer threw, if it threw.
\<close>

definition notify ::
  "engine \<Rightarrow> step_result \<Rightarrow> nat \<Rightarrow> nat \<Rightarrow> run_state
   \<Rightarrow> run_state \<times> step_result \<times> thrown option" where
  "notify eng stepResult position n_steps st =
     (case onStepComplete eng of
        None \<Rightarrow> (st, stepResult, None)
      | Some callback \<Rightarrow>
          (case callback stepResult position n_steps of
             (stepResult', error) \<Rightarrow>
               (st\<lparr>stepResults := butlast (stepResults st) @ [stepResult'],
                   events := events st @ [Observed stepResult position n_steps]\<rparr>,
                stepResult', error)))"

text \<open>
  One iteration of the step loop (\<open>i\<close> counts from 0, \<open>n_steps\<close> is the number of steps).
  The test of \<open>stepResult.success\<close> comes after the call of the observer.
\<close>

definition iteration ::
  "engine \<Rightarrow> nat \<Rightarrow> nat \<Rightarrow> pipeline_step \<Rightarrow> run_state \<Rightarrow> escape + run_state \<times> bool" where
  "iteration eng n_steps i step st =
     (let st0 = st\<lparr>events := events st @ [StepLog (i + 1) n_steps (step_name step)]\<rparr>
      in case executeStep eng step (stepResults st0) (executionContext st0) of
           Inl error \<Rightarrow> catch_block step error st0
         | Inr stepResult \<Rightarrow>
             (case notify eng stepResult (i + 1) n_steps (record_result step stepResult st0) of
                (st2, stepResult', Some error) \<Rightarrow> catch_block step error st2
              | (st2, stepResult', None) \<Rightarrow>
                  if \<not> sr_success stepResult' \<and> \<not> continueOnError step
                  then Inr (st2\<lparr>pipelineSuccess := False,
                                pipelineError := sr_error stepResult'\<rparr>, True)
                  else Inr (st2, False)))"

text \<open>The \<open>for\<close> loop over the steps, from position \<open>i\<close> on.\<close>

fun run_steps ::
  "engine \<Rightarrow> nat \<Rightarrow> nat \<Rightarrow> pipeline_step list \<Rightarrow> run_state \<Rightarrow> escape + run_state" where
  "run_steps eng n_steps i [] st = Inr st"
| "run_steps eng n_steps i (step # rest) st =
     (case iteration eng n_steps i step st of
        Inl e \<Rightarrow> Inl e
      | Inr (st', stop) \<Rightarrow> if stop then Inr st' else run_steps eng n_steps (Suc i) rest st')"

definition initial_state :: "pipeline_definition \<Rightarrow> (string \<rightharpoonup> json) \<Rightarrow> run_state" where
  "initial_state pipeline ctx =
     \<lparr>stepResults = [], actions = [],
      executionContext =
        \<lparr>ctx_fields = pd_defaultContext pipeline ++ ctx, ctx_stepResults = Map.empty\<rparr>,
      pipelineSuccess = True, pipelineError = Null, events = []\<rparr>"

definition result_of :: "pipeline_definition \<Rightarrow> run_state \<Rightarrow> pipeline_result" where
  "result_of pipeline st =
     \<lparr>pr_pipelineId = pd_id pipeline, pr_pipelineName = pd_name pipeline,
      pr_success = pipelineSuccess st, pr_steps = stepResults st, pr_actions = actions st,
      pr_error = pipelineError st, pr_context = executionContext st\<rparr>"

text \<open>
  \<open>runPipeline\<close> returns the result together with the events of the run; \<open>Inl\<close> is what
  escapes the call. Reading \<open>pipeline.steps.length\<close> of a stored definition without
  steps throws a TypeError; \<open>registerPipeline\<close> stores no such definition.
\<close>

definition runPipeline ::
  "engine \<Rightarrow> string \<Rightarrow> (string \<rightharpoonup> json) \<Rightarrow> escape + pipeline_result \<times> event list" where
  "runPipeline eng pipelineId ctx =
     (case pipelines eng pipelineId of
        None \<Rightarrow> Inl (Propagated (Error (''Pipeline not found: '' @ pipelineId)))
      | Some pipeline \<Rightarrow>
     (case pd_steps pipeline of
        None \<Rightarrow> Inl (TypeErrorReading ''length'')
      | Some steps \<Rightarrow>
     (let policyCheck =
            (case policyEngine eng of
               Some config \<Rightarrow> checkPipeline config (pd_id pipeline)
             | None \<Rightarrow> allow_plain)
      in if \<not> allowed policyCheck
         then Inl (Propagated
                    (Error (''Pipeline blocked by policy: '' @ js_str (reason policyCheck))))
         else
     (case (if pd_requiresApproval pipeline \<and> \<not> autoApprove eng
            then requestApproval eng
                   (PipelineApproval (pd_name pipeline) (pd_description pipeline))
            else Inr True) of
        Inl e \<Rightarrow> Inl (Propagated e)
      | Inr approved \<Rightarrow>
          if \<not> approved then Inl (Propagated (Error ''Pipeline execution rejected by user''))
          else
            (case run_steps eng (length steps) 0 steps (initial_state pipeline ctx) of
               Inl e \<Rightarrow> Inl e
             | Inr st \<Rightarrow> Inr (result_of pipeline st, events st))))))"

section \<open>Properties of runs\<close>

text \<open>
  What the call of the observer on a result yields: the StepResult as the observer
  leaves it, and the value it throws, if it throws (the result itself and nothing when
  no observer is configured).
\<close>

definition observer_outcome ::
  "engine \<Rightarrow> step_result \<Rightarrow> nat \<Rightarrow> nat \<Rightarrow> step_result \<times> thrown option" where
  "observer_outcome eng res position n_steps =
     (case onStepComplete eng of
        None \<Rightarrow> (res, None)
      | Some callback \<Rightarrow> callback res position n_steps)"

text \<open>The observer, if one is configured, neither throws nor changes the StepResult.\<close>

definition observer_passive :: "engine \<Rightarrow> bool" where
  "observer_passive eng \<longleftrightarrow>
     (\<forall>res position n_steps. observer_outcome eng res position n_steps = (res, None))"

text \<open>No collaborator of the engine throws \<open>undefined\<close> or \<open>null\<close>.\<close>

definition throws_errors_only :: "engine \<Rightarrow> bool" where
  "throws_errors_only eng \<longleftrightarrow>
     (\<forall>step results ctx. prepare eng step results ctx \<noteq> Inl Nullish)
     \<and> (\<forall>step input ctx. invoke eng step input ctx \<noteq> Inl Nullish)
     \<and> (\<forall>request. requestApproval eng request \<noteq> Inl Nullish)
     \<and> (\<forall>res position n_steps.
          snd (observer_outcome eng res position n_steps) \<noteq> Some Nullish)"

text \<open>\<open>executeStep\<close> throws, or returns a result with \<open>success = false\<close>.\<close>

definition execution_fails :: "engine \<Rightarrow> pipeline_step \<Rightarrow> run_state \<Rightarrow> bool" where
  "execution_fails eng step st \<longleftrightarrow>
     (case executeStep eng step (stepResults st) (executionContext st) of
        Inl error \<Rightarrow> True
      | Inr res \<Rightarrow> \<not> sr_success res)"

text \<open>
  The iterations that a run starts, in order: the position, the step and the state in
  which the iteration begins. The loop goes on after an iteration that neither breaks
  nor lets an error escape.
\<close>

fun started ::
  "engine \<Rightarrow> nat \<Rightarrow> nat \<Rightarrow> pipeline_step list \<Rightarrow> run_state
   \<Rightarrow> (nat \<times> pipeline_step \<times> run_state) list" where
  "started eng n_steps i [] st = []"
| "started eng n_steps i (step # rest) st =
     (i, step, st)
     # (case iteration eng n_steps i step st of
          Inl e \<Rightarrow> []
        | Inr (st', stop) \<Rightarrow> if stop then [] else started eng n_steps (Suc i) rest st')"

text \<open>
  Every step whose execution fails, in the state in which the run reaches it, has
  \<open>continueOnError\<close> set.
\<close>

definition failures_tolerated ::
  "engine \<Rightarrow> nat \<Rightarrow> nat \<Rightarrow> pipeline_step list \<Rightarrow> run_state \<Rightarrow> bool" where
  "failures_tolerated eng n_steps i steps st \<longleftrightarrow>
     list_all (\<lambda>(j, step, st'). execution_fails eng step st' \<longrightarrow> continueOnError step)
       (started eng n_steps i steps st)"

text \<open>
  The state after the \<open>try\<close> block has pushed and stored a returned StepResult and has
  called the observer.
\<close>

definition returned_state ::
  "engine \<Rightarrow> nat \<Rightarrow> nat \<Rightarrow> pipeline_step \<Rightarrow> step_result \<Rightarrow> run_state \<Rightarrow> run_state" where
  "returned_state eng n_steps i step res st =
     fst (notify eng res (i + 1) n_steps
            (record_result step res
               (st\<lparr>events := events st @ [StepLog (i + 1) n_steps (step_name step)]\<rparr>)))"

text \<open>The positions (counted from 1) of the steps that a run has started, in order.\<close>

fun attempted :: "event list \<Rightarrow> nat list" where
  "attempted [] = []"
| "attempted (StepLog position n_steps name # es) = position # attempted es"
| "attempted (Observed res position n_steps # es) = attempted es"

text \<open>The pipeline-level policy check of a run passes.\<close>

definition pipeline_admitted :: "engine \<Rightarrow> pipeline_definition \<Rightarrow> bool" where
  "pipeline_admitted eng p \<longleftrightarrow>
     (case policyEngine eng of
        None \<Rightarrow> True
      | Some config \<Rightarrow> allowed (checkPipeline config (pd_id p)))"

text \<open>
  What a started iteration leaves in the list of StepResults: for an execution that
  throws a value with a message, the failure record with that message; for an execution
  that returns, the returned StepResult as the observer leaves it and, when the observer
  throws a value with a message, the failure record with that message.
\<close>

definition captured ::
  "engine \<Rightarrow> nat \<Rightarrow> nat \<Rightarrow> pipeline_step \<Rightarrow> run_state \<Rightarrow> step_result list" where
  "captured eng n_steps i step st =
     (case executeStep eng step (stepResults st) (executionContext st) of
        Inl error \<Rightarrow>
          (case message_of error of None \<Rightarrow> [] | Some message \<Rightarrow> [failure_result step message])
      | Inr res \<Rightarrow>
          (case observer_outcome eng res (i + 1) n_steps of
             (res', None) \<Rightarrow> [res']
           | (res', Some error) \<Rightarrow>
               (case message_of error of
                  None \<Rightarrow> [res']
                | Some message \<Rightarrow> [res', failure_result step message])))"

section \<open>Properties of definitions and registries\<close>

text \<open>What \<open>validatePipelineDefinition\<close> asks of a step, and \<open>registerPipeline\<close> of a definition.\<close>

definition step_ok :: "pipeline_step \<Rightarrow> bool" where
  "step_ok s \<longleftrightarrow>
     \<not> falsy (step_id s) \<and> \<not> falsy (step_agent s) \<and> \<not> falsy (step_method s)
     \<and> \<not> falsy (step_inputFrom s)"

definition definition_ok :: "pipeline_definition \<Rightarrow> bool" where
  "definition_ok d \<longleftrightarrow>
     \<not> falsy (pd_id d)
     \<and> (case pd_steps d of None \<Rightarrow> False | Some steps \<Rightarrow> list_all step_ok steps)"

definition registry_ok :: "engine \<Rightarrow> bool" where
  "registry_ok eng \<longleftrightarrow> (\<forall>d \<in> ran (pipelines eng). definition_ok d)"

section \<open>Example inputs\<close>

definition no_conditions :: conditions where
  "no_conditions =
     \<lparr>allowedFiles = None, deniedFiles = None, allowedCommands = None,
      deniedCommands = None, cond_requiresApproval = None, timeRestrictions = None\<rparr>"

text \<open>A whitelist rule: files may only be created under \<open>src/\<close>.\<close>

definition src_only :: policy_rule where
  "src_only =
     \<lparr>rule_id = ''src-only'', appliesTo = Action, rule_target = Single ''CREATE_FILE'',
      rule_effect = Allow,
      rule_conditions = Some (no_conditions\<lparr>allowedFiles := Some [''src/**'']\<rparr>)\<rparr>"

definition src_only_policy :: policy_config where
  "src_only_policy =
     \<lparr>rules = [src_only], defaultEffect = Allow, defaultRequiresApproval = True\<rparr>"

definition create_files :: "string list \<Rightarrow> action" where
  "create_files ts =
     \<lparr>act_type = ''CREATE_FILE'', act_targets = Some ts,
      act_payload =
        \<lparr>pl_diff = None, pl_content = Some ''x'', pl_command = None, pl_message = None\<rparr>,
      act_reasoning = ''generated'', act_requiresApproval = True\<rparr>"

text \<open>Rules for the pipeline \<open>deploy\<close> and the agent \<open>terminalAgent\<close>, allowing and denying.\<close>

definition allow_deploy :: policy_rule where
  "allow_deploy =
     \<lparr>rule_id = ''allow-deploy'', appliesTo = Pipeline, rule_target = Single ''deploy'',
      rule_effect = Allow, rule_conditions = None\<rparr>"

definition deny_deploy :: policy_rule where
  "deny_deploy =
     \<lparr>rule_id = ''deny-deploy'', appliesTo = Pipeline,
      rule_target = Many [''release'', ''deploy''], rule_effect = Deny,
      rule_conditions = None\<rparr>"

definition allow_terminal :: policy_rule where
  "allow_terminal =
     \<lparr>rule_id = ''allow-terminal'', appliesTo = Agent,
      rule_target = Single ''terminalAgent'', rule_effect = Allow, rule_conditions = None\<rparr>"

definition deny_terminal :: policy_rule where
  "deny_terminal =
     \<lparr>rule_id = ''deny-terminal'', appliesTo = Agent,
      rule_target = Single ''terminalAgent'', rule_effect = Deny, rule_conditions = None\<rparr>"

definition allow_first_policy :: policy_config where
  "allow_first_policy =
     \<lparr>rules = [allow_deploy, allow_terminal, deny_deploy, deny_terminal],
      defaultEffect = Allow, defaultRequiresApproval = True\<rparr>"

definition deny_first_policy :: policy_config where
  "deny_first_policy =
     \<lparr>rules = [deny_deploy, deny_terminal, allow_deploy, allow_terminal],
      defaultEffect = Allow, defaultRequiresApproval = True\<rparr>"

text \<open>A rule that admits commands between 9 and 17 o'clock.\<close>

definition office_hours :: policy_rule where
  "office_hours =
     \<lparr>rule_id = ''office-hours'', appliesTo = Action, rule_target = Single ''RUN_COMMAND'',
      rule_effect = Allow,
      rule_conditions =
        Some (no_conditions\<lparr>timeRestrictions :=
                Some \<lparr>startHour = Some 9, endHour = Some 17, daysOfWeek = None\<rparr>\<rparr>)\<rparr>"

definition office_policy :: policy_config where
  "office_policy =
     \<lparr>rules = [office_hours], defaultEffect = Allow, defaultRequiresApproval = True\<rparr>"

definition run_command :: "string \<Rightarrow> action" where
  "run_command cmd =
     \<lparr>act_type = ''RUN_COMMAND'', act_targets = Some [],
      act_payload =
        \<lparr>pl_diff = None, pl_content = None, pl_command = Some cmd, pl_message = None\<rparr>,
      act_reasoning = ''Terminal command'', act_requiresApproval = True\<rparr>"

text \<open>The action of the repository's test of secret files, for one target.\<close>

definition modify_file :: "string \<Rightarrow> action" where
  "modify_file target =
     \<lparr>act_type = ''MODIFY_FILE'', act_targets = Some [target],
      act_payload =
        \<lparr>pl_diff = None, pl_content = None, pl_command = None, pl_message = None\<rparr>,
      act_reasoning = ''test'', act_requiresApproval = False\<rparr>"

text \<open>A regular-expression engine that rejects every pattern.\<close>

definition no_regex :: "string \<Rightarrow> string \<Rightarrow> bool option" where
  "no_regex pattern str = None"

text \<open>A step and pipelines built from it.\<close>

definition plain_step :: "string \<Rightarrow> bool \<Rightarrow> pipeline_step" where
  "plain_step name cont =
     \<lparr>step_id = Some name, step_name = Some name, step_agent = Some ''base'',
      step_method = Some ''query'', step_inputFrom = Some ''user'', step_query = None,
      step_requiresApproval = False, step_timeout = None, continueOnError = cont\<rparr>"

definition plain_pipeline :: "string \<Rightarrow> pipeline_step list \<Rightarrow> bool \<Rightarrow> pipeline_definition" where
  "plain_pipeline name steps approval =
     \<lparr>pd_id = Some name, pd_version = Some ''1.0.0'', pd_name = Some name,
      pd_description = None, pd_steps = Some steps, pd_defaultContext = Map.empty,
      pd_requiresApproval = approval\<rparr>"

definition twins :: pipeline_definition where
  "twins = plain_pipeline ''twins'' [plain_step ''a'' False, plain_step ''a'' False] False"

text \<open>
  An engine whose provider answers every step but \<open>B\<close> with success, \<open>B\<close> with
  \<open>success = false\<close>, and throws for the step \<open>X\<close>; each answer proposes one action.
\<close>

definition provider :: "pipeline_step \<Rightarrow> string \<Rightarrow> pipeline_context \<Rightarrow> thrown + agent_outcome" where
  "provider step input ctx =
     (if step_id step = Some ''X'' then Inl (Error ''provider unavailable'')
      else Inr \<lparr>ao_success = (step_id step \<noteq> Some ''B''), ao_data = JStr ''out'',
                ao_duration = 1, ao_actions = [create_files [''src/a.js'']]\<rparr>)"

definition idle_engine :: engine where
  "idle_engine =
     \<lparr>pipelines = Map.empty, policyEngine = None, autoApprove = False,
      onApprovalRequired = None, onStepComplete = None,
      prepare = (\<lambda>step results ctx. Inr ''input''), invoke = provider\<rparr>"

definition engine_with :: "pipeline_definition \<Rightarrow> engine" where
  "engine_with d = idle_engine\<lparr>pipelines := [js_str (pd_id d) \<mapsto> d]\<rparr>"

text \<open>The pipeline of three steps \<open>A\<close>, \<open>B\<close>, \<open>C\<close>; the flag is \<open>continueOnError\<close> of \<open>B\<close>.\<close>

definition abc :: "bool \<Rightarrow> pipeline_definition" where
  "abc cont =
     plain_pipeline ''abc''
       [plain_step ''A'' False, plain_step ''B'' cont, plain_step ''C'' False] False"

text \<open>A pipeline of one step, named like its step; the flag is its \<open>continueOnError\<close>.\<close>

definition solo :: "string \<Rightarrow> bool \<Rightarrow> pipeline_definition" where
  "solo name cont = plain_pipeline name [plain_step name cont] False"

text \<open>
  Observers: one that only looks; one that throws on results that failed; one that
  always throws; one that sets \<open>success\<close> on the result it is handed.
\<close>

definition onlooker :: "step_result \<Rightarrow> nat \<Rightarrow> nat \<Rightarrow> step_result \<times> thrown option" where
  "onlooker res position n_steps = (res, None)"

definition faultfinder :: "step_result \<Rightarrow> nat \<Rightarrow> nat \<Rightarrow> step_result \<times> thrown option" where
  "faultfinder res position n_steps =
     (res, if sr_success res then None else Some (Error ''observer failed''))"

definition heckler :: "step_result \<Rightarrow> nat \<Rightarrow> nat \<Rightarrow> step_result \<times> thrown option" where
  "heckler res position n_steps = (res, Some (Error ''observer failed''))"

definition whitewasher :: "step_result \<Rightarrow> nat \<Rightarrow> nat \<Rightarrow> step_result \<times> thrown option" where
  "whitewasher res position n_steps = (res\<lparr>sr_success := True\<rparr>, None)"

text \<open>
  A step for the agent \<open>terminalAgent\<close>, and a pipeline whose first step is for that
  agent, whose second step makes the provider throw, and whose third step succeeds.
\<close>

definition terminal_step :: "string \<Rightarrow> bool \<Rightarrow> pipeline_step" where
  "terminal_step name cont = (plain_step name cont)\<lparr>step_agent := Some ''terminalAgent''\<rparr>"

definition mixed :: pipeline_definition where
  "mixed =
     plain_pipeline ''mixed''
       [terminal_step ''T'' True, plain_step ''X'' True, plain_step ''A'' False] False"

text \<open>An approval callback that rejects every request.\<close>

definition refuser :: "approval_request \<Rightarrow> thrown + bool" where
  "refuser request = Inr False"

section \<open>Glob matcher: the test vectors\<close>

text \<open>
  C8. The glob matcher gives the four results of the specification's test vectors:
  \<open>project/.env\<close> matches \<open>**/.env\<close>, \<open>src/file.js\<close> does not match \<open>**/*.pem\<close>,
  \<open>project/secrets/api.key\<close> matches \<open>**/secrets/**\<close>, and \<open>src/app.js\<close> does not match
  \<open>**/secrets/**\<close>.
\<close>

theorem matchGlob_test_vectors:
  "matchGlob ''project/.env'' ''**/.env'' = Some True
   \<and> matchGlob ''src/file.js'' ''**/*.pem'' = Some False
   \<and> matchGlob ''project/secrets/api.key'' ''**/secrets/**'' = Some True
   \<and> matchGlob ''src/app.js'' ''**/secrets/**'' = Some False"
  by code_simp

section \<open>Action checks: the whitelist of files\<close>

lemma src_a_in_src: "matchGlob ''src/a.js'' ''src/**'' = Some True"
  by code_simp

lemma passwd_not_in_src: "matchGlob ''etc/passwd'' ''src/**'' = Some False"
  by code_simp

text \<open>
  C1. With the whitelist rule \<open>src-only\<close>, an action whose first target is inside the
  whitelist and whose second target is outside it is allowed, although the second
  target matches no allowed pattern; with the two targets in the other order the same
  action is denied with a reason citing the rule. The flag \<open>fileAllowed\<close> is not reset
  between targets.
\<close>

theorem allowedFiles_flag_carried_over:
  "checkAction re now src_only_policy (create_files [''src/a.js'', ''etc/passwd''])
     = Some \<lparr>allowed = True, reason = None, requiresApproval = Some True\<rparr>
   \<and> matchGlob ''etc/passwd'' ''src/**'' = Some False
   \<and> checkAction re now src_only_policy (create_files [''etc/passwd'', ''src/a.js''])
     = Some (denied ''File etc/passwd not in allowed patterns (rule: src-only)'')"
  by (simp add: checkAction_def matchingRules_def src_only_policy_def src_only_def
      create_files_def applies_def target_matches_def check_deniedFiles_def
      check_allowedFiles_def cond_of_def no_conditions_def check_deniedCommands_def
      check_allowedCommands_def command_of_def check_time_def
      src_a_in_src passwd_not_in_src)

section \<open>Pipeline and step checks: the first applicable rule decides\<close>

lemma find_first_index:
  "(\<exists>x. find P xs = Some x \<and> Q x)
   \<longleftrightarrow> (\<exists>i<length xs. P (xs ! i) \<and> Q (xs ! i) \<and> (\<forall>j<i. \<not> P (xs ! j)))"
  by (auto simp: find_Some_iff)

lemma checkPipeline_denies:
  "\<not> allowed (checkPipeline config pid) \<longleftrightarrow>
     (\<exists>r. find (applies Pipeline pid) (rules config) = Some r
          \<and> (rule_effect r = Deny
             \<and> reason (checkPipeline config pid)
                 = Some (''Pipeline '' @ js_str pid @ '' is denied by policy rule: ''
                         @ rule_id r)))"
  by (auto simp: checkPipeline_def denied_def allow_plain_def split: option.splits)

lemma checkStep_denies:
  "\<not> allowed (checkStep config agent) \<longleftrightarrow>
     (\<exists>r. find (applies Agent agent) (rules config) = Some r
          \<and> (rule_effect r = Deny
             \<and> reason (checkStep config agent)
                 = Some (''Agent '' @ js_str agent @ '' is denied by policy rule: ''
                         @ rule_id r)))"
  by (auto simp: checkStep_def denied_def allow_plain_def split: option.splits)

text \<open>
  C2 (as amended). A pipeline check, and likewise an agent check, denies exactly when
  the first rule in registration order whose scope and target match the subject has
  effect \<open>deny\<close>; the reason then carries that rule's id. In every other case (no
  matching rule, or a first matching rule with effect \<open>allow\<close>) the check allows.
\<close>

theorem first_applicable_rule_decides:
  "(\<not> allowed (checkPipeline config pid)
      \<longleftrightarrow> (\<exists>i<length (rules config).
             applies Pipeline pid (rules config ! i)
             \<and> (rule_effect (rules config ! i) = Deny
                \<and> reason (checkPipeline config pid)
                    = Some (''Pipeline '' @ js_str pid @ '' is denied by policy rule: ''
                            @ rule_id (rules config ! i)))
             \<and> (\<forall>j<i. \<not> applies Pipeline pid (rules config ! j))))
   \<and> (\<not> allowed (checkStep config agent)
      \<longleftrightarrow> (\<exists>i<length (rules config).
             applies Agent agent (rules config ! i)
             \<and> (rule_effect (rules config ! i) = Deny
                \<and> reason (checkStep config agent)
                    = Some (''Agent '' @ js_str agent @ '' is denied by policy rule: ''
                            @ rule_id (rules config ! i)))
             \<and> (\<forall>j<i. \<not> applies Agent agent (rules config ! j))))"
  unfolding checkPipeline_denies checkStep_denies
  by (simp only: find_first_index)

text \<open>Witness: with the deny rules registered first, both checks deny.\<close>

theorem first_applicable_rule_decides_witness:
  "\<not> allowed (checkPipeline deny_first_policy (Some ''deploy''))
   \<and> \<not> allowed (checkStep deny_first_policy (Some ''terminalAgent''))"
  using first_applicable_rule_decides
          [of deny_first_policy "Some ''deploy''" "Some ''terminalAgent''"]
  by (simp add: checkPipeline_def checkStep_def deny_first_policy_def deny_deploy_def
      deny_terminal_def applies_def target_matches_def denied_def)

text \<open>
  Counterexample to C2 as stated: a matching \<open>deny\<close> rule is registered, after a matching
  \<open>allow\<close> rule, and both checks allow.
\<close>

theorem later_deny_rule_shadowed:
  "applies Pipeline (Some ''deploy'') deny_deploy \<and> rule_effect deny_deploy = Deny
   \<and> applies Agent (Some ''terminalAgent'') deny_terminal \<and> rule_effect deny_terminal = Deny
   \<and> rules allow_first_policy = [allow_deploy, allow_terminal, deny_deploy, deny_terminal]
   \<and> checkPipeline allow_first_policy (Some ''deploy'') = allow_plain
   \<and> checkStep allow_first_policy (Some ''terminalAgent'') = allow_plain
   \<and> allowed allow_plain"
  by (simp add: checkPipeline_def checkStep_def allow_first_policy_def deny_deploy_def
      deny_terminal_def allow_deploy_def allow_terminal_def applies_def target_matches_def
      allow_plain_def)

section \<open>Action checks and the clock\<close>

lemma check_time_no_restriction:
  "cond_of r timeRestrictions = None \<Longrightarrow> check_time now r = None"
  by (simp add: check_time_def)

lemma check_rules_clock:
  "\<forall>r \<in> set rs. cond_of r timeRestrictions = None \<Longrightarrow>
   check_rules re now1 a rs ra = check_rules re now2 a rs ra"
proof (induction rs arbitrary: ra)
  case Nil
  then show ?case by simp
next
  case (Cons r rs)
  then have t: "check_time now1 r = None" "check_time now2 r = None"
    by (simp_all add: check_time_no_restriction)
  from Cons have ih: "\<And>ra. check_rules re now1 a rs ra = check_rules re now2 a rs ra"
    by simp
  show ?case
    by (simp add: t ih split: option.splits)
qed

text \<open>
  C9 (as amended). The outcome of an action check is a function of the rule set, the
  action and the reading of the clock (hour and weekday); when no rule that matches the
  action carries time restrictions, the outcome is the same at every reading of the
  clock.
\<close>

theorem checkAction_clock_free:
  "\<forall>r \<in> set (matchingRules config a). cond_of r timeRestrictions = None \<Longrightarrow>
   checkAction re now1 config a = checkAction re now2 config a"
  unfolding checkAction_def by (rule check_rules_clock)

theorem checkAction_clock_free_witness:
  "checkAction no_regex \<lparr>getHours = 3, getDay = 0\<rparr> src_only_policy
     (create_files [''src/a.js''])
   = checkAction no_regex \<lparr>getHours = 15, getDay = 4\<rparr> src_only_policy
       (create_files [''src/a.js''])"
  using checkAction_clock_free
          [of src_only_policy "create_files [''src/a.js'']" no_regex
              "\<lparr>getHours = 3, getDay = 0\<rparr>" "\<lparr>getHours = 15, getDay = 4\<rparr>"]
  by (simp add: matchingRules_def src_only_policy_def src_only_def create_files_def
      applies_def target_matches_def cond_of_def no_conditions_def)

lemma show_int_9: "show_int 9 = ''9''"
  by code_simp

lemma show_int_17: "show_int 17 = ''17''"
  by code_simp

text \<open>
  Counterexample to C9 as stated: the same rule set and the same action, checked at 10
  o'clock and at 20 o'clock, are allowed and denied.
\<close>

theorem checkAction_depends_on_clock:
  "checkAction no_regex \<lparr>getHours = 10, getDay = 1\<rparr> office_policy (run_command ''ls'')
     = Some \<lparr>allowed = True, reason = None, requiresApproval = Some True\<rparr>
   \<and> checkAction no_regex \<lparr>getHours = 20, getDay = 1\<rparr> office_policy (run_command ''ls'')
     = Some (denied ''Action not allowed at this time (allowed: 9:00-17:00)'')"
  by (simp add: checkAction_def matchingRules_def office_policy_def office_hours_def
      run_command_def applies_def target_matches_def check_deniedFiles_def
      check_allowedFiles_def cond_of_def no_conditions_def check_deniedCommands_def
      check_allowedCommands_def command_of_def check_time_def show_int_9 show_int_17)

section \<open>Registration\<close>

lemma validate_steps_None: "validate_steps i steps = None \<longleftrightarrow> list_all step_ok steps"
  by (induction steps arbitrary: i) (auto simp: step_ok_def)

lemma validate_steps_Some:
  "validate_steps i steps = Some e \<Longrightarrow> \<not> list_all step_ok steps"
  using validate_steps_None [of i steps] by simp

lemma registerPipeline_Inr:
  "registerPipeline eng d = Inr eng' \<longleftrightarrow>
     definition_ok d \<and> eng' = eng\<lparr>pipelines := (pipelines eng)(js_str (pd_id d) \<mapsto> d)\<rparr>"
proof (cases "pd_steps d")
  case None
  then show ?thesis by (simp add: registerPipeline_def definition_ok_def)
next
  case (Some steps)
  show ?thesis
  proof (cases "validate_steps 0 steps")
    case None
    then have "list_all step_ok steps" by (simp add: validate_steps_None)
    with None Some show ?thesis
      by (auto simp: registerPipeline_def definition_ok_def validatePipelineDefinition_def)
  next
    case (Some e)
    then have "\<not> list_all step_ok steps" by (rule validate_steps_Some)
    with Some \<open>pd_steps d = Some steps\<close> show ?thesis
      by (simp add: registerPipeline_def definition_ok_def validatePipelineDefinition_def)
  qed
qed

lemma registry_ok_update:
  assumes "registry_ok eng" "definition_ok d"
  shows "registry_ok (eng\<lparr>pipelines := (pipelines eng)(k \<mapsto> d)\<rparr>)"
proof -
  have "ran ((pipelines eng)(k \<mapsto> d)) \<subseteq> insert d (ran (pipelines eng))"
    by (auto simp: ran_def)
  with assms show ?thesis
    unfolding registry_ok_def by auto
qed

text \<open>
  C10 (as amended). \<open>registerPipeline\<close> accepts a definition exactly when its id is
  non-empty, it has a steps array, and every step has a non-empty id, agent, method and
  input source; it then stores the definition under its id. Every definition in a
  registry built by registrations satisfies this. Nothing is said about step ids being
  distinct.
\<close>

theorem registerPipeline_validates:
  "(registerPipeline eng d = Inr eng' \<longleftrightarrow>
      definition_ok d \<and> eng' = eng\<lparr>pipelines := (pipelines eng)(js_str (pd_id d) \<mapsto> d)\<rparr>)
   \<and> (registry_ok eng \<and> registerPipeline eng d = Inr eng' \<longrightarrow> registry_ok eng')"
proof (intro conjI impI)
  show "registerPipeline eng d = Inr eng' \<longleftrightarrow>
      definition_ok d \<and> eng' = eng\<lparr>pipelines := (pipelines eng)(js_str (pd_id d) \<mapsto> d)\<rparr>"
    by (rule registerPipeline_Inr)
next
  assume a: "registry_ok eng \<and> registerPipeline eng d = Inr eng'"
  then have "definition_ok d"
    "eng' = eng\<lparr>pipelines := (pipelines eng)(js_str (pd_id d) \<mapsto> d)\<rparr>"
    by (simp_all add: registerPipeline_Inr)
  with a show "registry_ok eng'" by (simp add: registry_ok_update)
qed

lemma twins_ok: "definition_ok twins"
  by (simp add: definition_ok_def twins_def plain_pipeline_def plain_step_def step_ok_def
      falsy_def)

lemma pipelines_idle: "pipelines idle_engine = Map.empty"
  by (simp add: idle_engine_def)

lemma idle_registry_ok: "registry_ok idle_engine"
  by (simp add: registry_ok_def pipelines_idle)

theorem registerPipeline_validates_witness:
  "registerPipeline idle_engine twins = Inr (engine_with twins)
   \<and> registry_ok (engine_with twins)"
  using registerPipeline_validates [of idle_engine twins "engine_with twins"]
    twins_ok idle_registry_ok
  by (simp add: engine_with_def pipelines_idle)

text \<open>
  Counterexample to C10 as stated: a definition whose two steps share the id \<open>a\<close> is
  accepted and stored.
\<close>

theorem duplicate_step_ids_accepted:
  "registerPipeline idle_engine twins = Inr (engine_with twins)
   \<and> pipelines (engine_with twins) ''twins'' = Some twins
   \<and> pd_steps twins = Some [plain_step ''a'' False, plain_step ''a'' False]
   \<and> \<not> distinct (map step_id [plain_step ''a'' False, plain_step ''a'' False])"
proof -
  have "js_str (pd_id twins) = ''twins''"
    by (simp add: twins_def plain_pipeline_def js_str_def)
  moreover have "pd_steps twins = Some [plain_step ''a'' False, plain_step ''a'' False]"
    by (simp add: twins_def plain_pipeline_def)
  ultimately show ?thesis
    using twins_ok by (simp add: registerPipeline_Inr engine_with_def pipelines_idle)
qed


section \<open>The step loop\<close>

lemma attempted_append: "attempted (xs @ ys) = attempted xs @ attempted ys"
  by (induction xs rule: attempted.induct) simp_all

lemma catch_block_message:
  "catch_block step (Thrown m) st
     = (if \<not> continueOnError step
        then Inr (st\<lparr>stepResults := stepResults st @ [failure_result step m],
                      pipelineSuccess := False, pipelineError := m\<rparr>, True)
        else Inr (st\<lparr>stepResults := stepResults st @ [failure_result step m]\<rparr>, False))"
  by (simp add: catch_block_def message_of_def Let_def)

lemma catch_block_nullish: "catch_block step Nullish st = Inl (TypeErrorReading ''message'')"
  by (simp add: catch_block_def message_of_def)

lemma iteration_thrown:
  "executeStep eng step (stepResults st) (executionContext st) = Inl x \<Longrightarrow>
   iteration eng n i step st
     = catch_block step x (st\<lparr>events := events st @ [StepLog (i + 1) n (step_name step)]\<rparr>)"
  by (simp add: iteration_def)

lemma notify_outcome:
  "snd (notify eng res position n st) = observer_outcome eng res position n"
  by (simp add: notify_def observer_outcome_def split: option.splits prod.splits)

lemma iteration_returned:
  "executeStep eng step (stepResults st) (executionContext st) = Inr res \<Longrightarrow>
   iteration eng n i step st
     = (case snd (observer_outcome eng res (i + 1) n) of
          Some x \<Rightarrow> catch_block step x (returned_state eng n i step res st)
        | None \<Rightarrow>
            if \<not> sr_success (fst (observer_outcome eng res (i + 1) n)) \<and> \<not> continueOnError step
            then Inr ((returned_state eng n i step res st)
                        \<lparr>pipelineSuccess := False,
                         pipelineError := sr_error (fst (observer_outcome eng res (i + 1) n))\<rparr>,
                      True)
            else Inr (returned_state eng n i step res st, False))"
proof -
  assume e: "executeStep eng step (stepResults st) (executionContext st) = Inr res"
  let ?st0 = "st\<lparr>events := events st @ [StepLog (i + 1) n (step_name step)]\<rparr>"
  obtain st2 res' out where
    nt: "notify eng res (i + 1) n (record_result step res ?st0) = (st2, res', out)"
    by (cases "notify eng res (i + 1) n (record_result step res ?st0)") auto
  then have "observer_outcome eng res (i + 1) n = (res', out)"
    using notify_outcome [of eng res "i + 1" n "record_result step res ?st0"] by simp
  moreover from nt have "returned_state eng n i step res st = st2"
    by (simp add: returned_state_def)
  ultimately show ?thesis
    using e nt by (cases out) (simp_all add: iteration_def)
qed

lemma returned_state_simps:
  "stepResults (returned_state eng n i step res st)
     = stepResults st @ [fst (observer_outcome eng res (i + 1) n)]"
  "executionContext (returned_state eng n i step res st)
     = (executionContext st)\<lparr>ctx_stepResults :=
          assign_property (ctx_stepResults (executionContext st))
            (js_str (step_id step)) (sr_data res)\<rparr>"
  "actions (returned_state eng n i step res st)
     = actions st @ (case sr_actions res of Some acts \<Rightarrow> acts | None \<Rightarrow> [])"
  "events (returned_state eng n i step res st)
     = events st @ StepLog (i + 1) n (step_name step)
         # (case onStepComplete eng of None \<Rightarrow> [] | Some callback \<Rightarrow> [Observed res (i + 1) n])"
  "pipelineSuccess (returned_state eng n i step res st) = pipelineSuccess st"
  "pipelineError (returned_state eng n i step res st) = pipelineError st"
  by (simp_all add: returned_state_def notify_def record_result_def observer_outcome_def
      split: option.splits prod.splits)


section \<open>What an iteration leaves\<close>

lemma iteration_captured:
  assumes "iteration eng n i step st = Inr (st', stop)"
  shows "stepResults st' = stepResults st @ captured eng n i step st"
proof (cases "executeStep eng step (stepResults st) (executionContext st)")
  case (Inl x)
  show ?thesis
  proof (cases x)
    case Nullish
    with Inl assms show ?thesis
      by (simp add: iteration_thrown catch_block_nullish)
  next
    case (Thrown m)
    with Inl assms show ?thesis
      by (auto simp: iteration_thrown catch_block_message captured_def message_of_def
          split: if_splits)
  qed
next
  case (Inr res)
  obtain res' out where o: "observer_outcome eng res (i + 1) n = (res', out)"
    by (cases "observer_outcome eng res (i + 1) n") auto
  show ?thesis
  proof (cases out)
    case None
    with Inr o assms show ?thesis
      by (auto simp: iteration_returned captured_def returned_state_simps split: if_splits)
  next
    case (Some x)
    show ?thesis
    proof (cases x)
      case Nullish
      with Some Inr o assms show ?thesis
        by (simp add: iteration_returned catch_block_nullish)
    next
      case (Thrown m)
      with Some Inr o assms show ?thesis
        by (auto simp: iteration_returned catch_block_message captured_def message_of_def
            returned_state_simps split: if_splits)
    qed
  qed
qed

lemma iteration_attempted:
  assumes "iteration eng n i step st = Inr (st', stop)"
  shows "attempted (events st') = attempted (events st) @ [Suc i]"
proof (cases "executeStep eng step (stepResults st) (executionContext st)")
  case (Inl x)
  with assms show ?thesis
    by (cases x)
       (auto simp: iteration_thrown catch_block_nullish catch_block_message attempted_append
        split: if_splits)
next
  case (Inr res)
  have e: "attempted (events (returned_state eng n i step res st)) = attempted (events st) @ [Suc i]"
    by (simp add: returned_state_simps attempted_append split: option.splits)
  show ?thesis
  proof (cases "snd (observer_outcome eng res (i + 1) n)")
    case None
    with Inr assms e show ?thesis
      by (auto simp: iteration_returned split: if_splits)
  next
    case (Some x)
    with Inr assms e show ?thesis
      by (cases x)
         (auto simp: iteration_returned catch_block_nullish catch_block_message
          split: if_splits)
  qed
qed

lemma executeStep_no_nullish:
  assumes "throws_errors_only eng"
  shows "executeStep eng step results ctx \<noteq> Inl Nullish"
proof -
  from assms have p: "prepare eng step results ctx \<noteq> Inl Nullish"
    and i: "\<And>input. invoke eng step input ctx \<noteq> Inl Nullish"
    and r: "\<And>request. requestApproval eng request \<noteq> Inl Nullish"
    by (simp_all add: throws_errors_only_def)
  show ?thesis
  proof (cases "prepare eng step results ctx")
    case (Inl x)
    with p show ?thesis by (simp add: executeStep_def)
  next
    case (Inr input)
    show ?thesis
      using Inr i [of input] r [of "StepApproval (step_name step) (step_agent step) input"]
      by (auto simp: executeStep_def Let_def split: sum.splits if_splits)
  qed
qed

lemma iteration_no_escape:
  assumes "throws_errors_only eng"
  shows "\<exists>st' stop. iteration eng n i step st = Inr (st', stop)"
proof (cases "executeStep eng step (stepResults st) (executionContext st)")
  case (Inl x)
  with executeStep_no_nullish [OF assms] obtain m where "x = Thrown m"
    by (cases x) auto
  with Inl show ?thesis
    by (cases "continueOnError step") (auto simp: iteration_thrown catch_block_message)
next
  case (Inr res)
  from assms have o: "snd (observer_outcome eng res (i + 1) n) \<noteq> Some Nullish"
    by (simp add: throws_errors_only_def)
  show ?thesis
  proof (cases "snd (observer_outcome eng res (i + 1) n)")
    case None
    with Inr show ?thesis by (auto simp: iteration_returned)
  next
    case (Some x)
    with o obtain m where "x = Thrown m" by (cases x) auto
    with Some Inr show ?thesis
      by (cases "continueOnError step") (auto simp: iteration_returned catch_block_message)
  qed
qed

section \<open>What a run leaves\<close>

lemma run_steps_no_escape:
  assumes "throws_errors_only eng"
  shows "\<exists>final. run_steps eng n i steps st = Inr final"
proof (induction steps arbitrary: i st)
  case Nil
  show ?case by simp
next
  case (Cons step rest)
  from iteration_no_escape [OF assms] obtain st' stop where
    "iteration eng n i step st = Inr (st', stop)"
    by blast
  with Cons [of "Suc i" st'] show ?case by auto
qed

lemma run_steps_captured:
  "run_steps eng n i steps st = Inr final \<Longrightarrow>
   stepResults final
     = stepResults st
       @ concat (map (\<lambda>(j, step, st'). captured eng n j step st') (started eng n i steps st))"
proof (induction steps arbitrary: i st)
  case Nil
  then show ?case by simp
next
  case (Cons step rest)
  from Cons.prems obtain st' stop where it: "iteration eng n i step st = Inr (st', stop)"
    by (cases "iteration eng n i step st") auto
  have c: "stepResults st' = stepResults st @ captured eng n i step st"
    using it by (rule iteration_captured)
  show ?case
  proof (cases stop)
    case True
    with it c Cons.prems show ?thesis by simp
  next
    case False
    with it Cons.prems have "run_steps eng n (Suc i) rest st' = Inr final" by simp
    from Cons.IH [OF this] it c False show ?thesis by simp
  qed
qed


lemma runPipeline_Inr:
  assumes "pipelines eng pid = Some p" "pd_steps p = Some steps"
    and "runPipeline eng pid ctx = Inr (r, ev)"
  shows "\<exists>final. run_steps eng (length steps) 0 steps (initial_state p ctx) = Inr final
                 \<and> r = result_of p final \<and> ev = events final"
  using assms
  by (auto simp: runPipeline_def Let_def split: option.splits sum.splits if_splits)

lemma runPipeline_returns:
  assumes "pipelines eng pid = Some p" "pd_steps p = Some steps" "pipeline_admitted eng p"
    and "\<not> pd_requiresApproval p \<or> autoApprove eng
         \<or> requestApproval eng (PipelineApproval (pd_name p) (pd_description p)) = Inr True"
    and "run_steps eng (length steps) 0 steps (initial_state p ctx) = Inr final"
  shows "runPipeline eng pid ctx = Inr (result_of p final, events final)"
  using assms
  by (auto simp: runPipeline_def pipeline_admitted_def allow_plain_def Let_def
      split: option.splits)

lemma initial_state_simps:
  "pipelineSuccess (initial_state p ctx)" "pipelineError (initial_state p ctx) = Null"
  "events (initial_state p ctx) = []" "stepResults (initial_state p ctx) = []"
  by (simp_all add: initial_state_def)

lemma runPipeline_Inl:
  assumes "throws_errors_only eng"
  shows "runPipeline eng pid ctx = Inl e \<longleftrightarrow>
     (case pipelines eng pid of
        None \<Rightarrow> e = Propagated (Error (''Pipeline not found: '' @ pid))
      | Some p \<Rightarrow>
          (case pd_steps p of
             None \<Rightarrow> e = TypeErrorReading ''length''
           | Some steps \<Rightarrow>
               (if \<not> pipeline_admitted eng p
                then e = Propagated
                           (Error (''Pipeline blocked by policy: ''
                              @ js_str (case policyEngine eng of
                                          None \<Rightarrow> None
                                        | Some config \<Rightarrow>
                                            reason (checkPipeline config (pd_id p)))))
                else pd_requiresApproval p \<and> \<not> autoApprove eng
                     \<and> ((\<exists>x. requestApproval eng
                                (PipelineApproval (pd_name p) (pd_description p)) = Inl x
                              \<and> e = Propagated x)
                        \<or> requestApproval eng
                             (PipelineApproval (pd_name p) (pd_description p)) = Inr False
                          \<and> e = Propagated (Error ''Pipeline execution rejected by user'')))))"
proof (cases "pipelines eng pid")
  case None
  then show ?thesis by (auto simp: runPipeline_def)
next
  case (Some p)
  show ?thesis
  proof (cases "pd_steps p")
    case None
    with Some show ?thesis by (auto simp: runPipeline_def)
  next
    case steps: (Some steps)
    from run_steps_no_escape [OF assms] obtain final where
      "run_steps eng (length steps) 0 steps (initial_state p ctx) = Inr final"
      by blast
    with Some steps show ?thesis
      by (auto simp: runPipeline_def pipeline_admitted_def allow_plain_def Let_def
          split: option.splits sum.splits)
  qed
qed

text \<open>
  C4 (as amended). When no collaborator of the engine throws \<open>undefined\<close> or \<open>null\<close>,
  \<open>runPipeline\<close> throws exactly in these cases, all before the first step: the pipeline id
  is unknown; the pipeline-level policy check denies; the pipeline-level approval is
  required and is rejected, or its callback throws (and the stored definition has no
  steps array, which registration excludes). Whenever it returns, the StepResults of
  the result are exactly what the started iterations leave, in order: for a step whose
  execution throws, the failure record with the thrown message; for a step that
  returns, the returned StepResult as the observer leaves it, followed by a failure
  record when the observer throws.
\<close>

theorem runPipeline_captures_failures:
  assumes "throws_errors_only eng"
  shows "(runPipeline eng pid ctx = Inl e \<longleftrightarrow>
     (case pipelines eng pid of
        None \<Rightarrow> e = Propagated (Error (''Pipeline not found: '' @ pid))
      | Some p \<Rightarrow>
          (case pd_steps p of
             None \<Rightarrow> e = TypeErrorReading ''length''
           | Some steps \<Rightarrow>
               (if \<not> pipeline_admitted eng p
                then e = Propagated
                           (Error (''Pipeline blocked by policy: ''
                              @ js_str (case policyEngine eng of
                                          None \<Rightarrow> None
                                        | Some config \<Rightarrow>
                                            reason (checkPipeline config (pd_id p)))))
                else pd_requiresApproval p \<and> \<not> autoApprove eng
                     \<and> ((\<exists>x. requestApproval eng
                                (PipelineApproval (pd_name p) (pd_description p)) = Inl x
                              \<and> e = Propagated x)
                        \<or> requestApproval eng
                             (PipelineApproval (pd_name p) (pd_description p)) = Inr False
                          \<and> e = Propagated (Error ''Pipeline execution rejected by user''))))))
   \<and> (pipelines eng pid = Some p \<and> pd_steps p = Some steps
        \<and> runPipeline eng pid ctx = Inr (r, ev) \<longrightarrow>
      pr_steps r
        = concat (map (\<lambda>(i, step, st). captured eng (length steps) i step st)
                    (started eng (length steps) 0 steps (initial_state p ctx))))"
proof (intro conjI impI)
  show "runPipeline eng pid ctx = Inl e \<longleftrightarrow>
     (case pipelines eng pid of
        None \<Rightarrow> e = Propagated (Error (''Pipeline not found: '' @ pid))
      | Some p \<Rightarrow>
          (case pd_steps p of
             None \<Rightarrow> e = TypeErrorReading ''length''
           | Some steps \<Rightarrow>
               (if \<not> pipeline_admitted eng p
                then e = Propagated
                           (Error (''Pipeline blocked by policy: ''
                              @ js_str (case policyEngine eng of
                                          None \<Rightarrow> None
                                        | Some config \<Rightarrow>
                                            reason (checkPipeline config (pd_id p)))))
                else pd_requiresApproval p \<and> \<not> autoApprove eng
                     \<and> ((\<exists>x. requestApproval eng
                                (PipelineApproval (pd_name p) (pd_description p)) = Inl x
                              \<and> e = Propagated x)
                        \<or> requestApproval eng
                             (PipelineApproval (pd_name p) (pd_description p)) = Inr False
                          \<and> e = Propagated (Error ''Pipeline execution rejected by user'')))))"
    using assms by (rule runPipeline_Inl)
next
  assume a: "pipelines eng pid = Some p \<and> pd_steps p = Some steps
        \<and> runPipeline eng pid ctx = Inr (r, ev)"
  then obtain final where
    f: "run_steps eng (length steps) 0 steps (initial_state p ctx) = Inr final"
      "r = result_of p final"
    using runPipeline_Inr [of eng pid p steps ctx r ev] by blast
  from run_steps_captured [OF f(1)] f(2)
  show "pr_steps r
        = concat (map (\<lambda>(i, step, st). captured eng (length steps) i step st)
                    (started eng (length steps) 0 steps (initial_state p ctx)))"
    by (simp add: result_of_def initial_state_simps)
qed


section \<open>Iterations under an observer that only looks\<close>

lemma passive_outcome:
  "observer_passive eng \<Longrightarrow> observer_outcome eng res position n = (res, None)"
  by (simp add: observer_passive_def)

lemma executeStep_stepId:
  "executeStep eng step results ctx = Inr res \<Longrightarrow> sr_stepId res = step_id step"
  by (auto simp: executeStep_def Let_def split: sum.splits if_splits)

lemma iteration_success:
  assumes "iteration eng n i step st = Inr (st', stop)"
  shows "pipelineSuccess st' \<longleftrightarrow> pipelineSuccess st \<and> \<not> stop"
proof (cases "executeStep eng step (stepResults st) (executionContext st)")
  case (Inl x)
  with assms show ?thesis
    by (cases x)
       (auto simp: iteration_thrown catch_block_nullish catch_block_message split: if_splits)
next
  case (Inr res)
  show ?thesis
  proof (cases "snd (observer_outcome eng res (i + 1) n)")
    case None
    with Inr assms show ?thesis
      by (auto simp: iteration_returned returned_state_simps split: if_splits)
  next
    case (Some x)
    with Inr assms show ?thesis
      by (cases x)
         (auto simp: iteration_returned catch_block_nullish catch_block_message
          returned_state_simps split: if_splits)
  qed
qed

lemma iteration_error:
  assumes "iteration eng n i step st = Inr (st', False)"
  shows "pipelineError st' = pipelineError st"
proof (cases "executeStep eng step (stepResults st) (executionContext st)")
  case (Inl x)
  with assms show ?thesis
    by (cases x)
       (auto simp: iteration_thrown catch_block_nullish catch_block_message split: if_splits)
next
  case (Inr res)
  show ?thesis
  proof (cases "snd (observer_outcome eng res (i + 1) n)")
    case None
    with Inr assms show ?thesis
      by (auto simp: iteration_returned returned_state_simps split: if_splits)
  next
    case (Some x)
    with Inr assms show ?thesis
      by (cases x)
         (auto simp: iteration_returned catch_block_nullish catch_block_message
          returned_state_simps split: if_splits)
  qed
qed

lemma iteration_passive:
  assumes "observer_passive eng" "iteration eng n i step st = Inr (st', stop)"
  shows "(stop \<longleftrightarrow> execution_fails eng step st \<and> \<not> continueOnError step)
       \<and> (\<exists>x. stepResults st' = stepResults st @ [x] \<and> sr_stepId x = step_id step
               \<and> (sr_success x \<longleftrightarrow> \<not> execution_fails eng step st))
       \<and> (\<forall>m. executeStep eng step (stepResults st) (executionContext st) = Inl (Thrown m)
               \<and> stop \<longrightarrow> pipelineError st' = m)
       \<and> (stop \<longrightarrow> pipelineError st' = sr_error (last (stepResults st')))"
proof (cases "executeStep eng step (stepResults st) (executionContext st)")
  case (Inl x)
  with assms(2) show ?thesis
    by (cases x)
       (auto simp: iteration_thrown catch_block_nullish catch_block_message
        execution_fails_def failure_result_def split: if_splits)
next
  case (Inr res)
  have o: "observer_outcome eng res (i + 1) n = (res, None)"
    using assms(1) by (rule passive_outcome)
  have "sr_stepId res = step_id step"
    using Inr by (rule executeStep_stepId)
  with Inr o assms(2) show ?thesis
    by (auto simp: iteration_returned returned_state_simps execution_fails_def
        split: if_splits)
qed

lemma started_Cons:
  "iteration eng n i step st = Inr (st', stop) \<Longrightarrow>
   started eng n i (step # rest) st
     = (i, step, st) # (if stop then [] else started eng n (Suc i) rest st')"
  by simp

lemma run_steps_Cons:
  "iteration eng n i step st = Inr (st', stop) \<Longrightarrow>
   run_steps eng n i (step # rest) st
     = (if stop then Inr st' else run_steps eng n (Suc i) rest st')"
  by simp

lemma run_steps_iteration:
  assumes "run_steps eng n i (step # rest) st = Inr final"
  shows "\<exists>st' stop. iteration eng n i step st = Inr (st', stop)
           \<and> (stop \<longrightarrow> final = st')
           \<and> (\<not> stop \<longrightarrow> run_steps eng n (Suc i) rest st' = Inr final)"
proof (cases "iteration eng n i step st")
  case (Inl e)
  with assms show ?thesis by simp
next
  case (Inr pair)
  obtain st' stop where "pair = (st', stop)" by (cases pair)
  with Inr assms show ?thesis by (cases stop) auto
qed

lemma run_steps_success:
  assumes "observer_passive eng"
  shows "run_steps eng n i steps st = Inr final \<Longrightarrow>
         pipelineSuccess final \<longleftrightarrow> pipelineSuccess st \<and> failures_tolerated eng n i steps st"
proof (induction steps arbitrary: i st)
  case Nil
  then show ?case by (simp add: failures_tolerated_def)
next
  case (Cons step rest)
  from run_steps_iteration [OF Cons.prems]
  obtain st' stop where it: "iteration eng n i step st = Inr (st', stop)"
    and fin: "stop \<Longrightarrow> final = st'"
    and go: "\<not> stop \<Longrightarrow> run_steps eng n (Suc i) rest st' = Inr final"
    by blast
  have stop: "stop \<longleftrightarrow> execution_fails eng step st \<and> \<not> continueOnError step"
    using iteration_passive [OF assms it] by simp
  have succ: "pipelineSuccess st' \<longleftrightarrow> pipelineSuccess st \<and> \<not> stop"
    using it by (rule iteration_success)
  show ?case
  proof (cases stop)
    case True
    with fin stop succ it show ?thesis
      by (simp add: failures_tolerated_def)
  next
    case False
    from Cons.IH [OF go [OF False]] False stop succ it show ?thesis
      by (auto simp: failures_tolerated_def)
  qed
qed

lemma run_steps_complete:
  assumes "observer_passive eng"
  shows "run_steps eng n i steps st = Inr final \<Longrightarrow> failures_tolerated eng n i steps st \<Longrightarrow>
         pipelineError final = pipelineError st
         \<and> attempted (events final) = attempted (events st) @ [Suc i..<Suc i + length steps]"
proof (induction steps arbitrary: i st)
  case Nil
  then show ?case by simp
next
  case (Cons step rest)
  from run_steps_iteration [OF Cons.prems(1)]
  obtain st' stop where it: "iteration eng n i step st = Inr (st', stop)"
    and fin: "stop \<Longrightarrow> final = st'"
    and go: "\<not> stop \<Longrightarrow> run_steps eng n (Suc i) rest st' = Inr final"
    by blast
  have stop: "stop \<longleftrightarrow> execution_fails eng step st \<and> \<not> continueOnError step"
    using iteration_passive [OF assms it] by simp
  from Cons.prems(2) it have tol: "execution_fails eng step st \<longrightarrow> continueOnError step"
    by (simp add: failures_tolerated_def)
  with stop have ns: "\<not> stop" by simp
  with Cons.prems(2) it have ft: "failures_tolerated eng n (Suc i) rest st'"
    by (simp add: failures_tolerated_def)
  have e: "pipelineError st' = pipelineError st"
    using it ns by (simp add: iteration_error)
  have a: "attempted (events st') = attempted (events st) @ [Suc i]"
    using it by (rule iteration_attempted)
  have "[Suc i..<Suc i + length (step # rest)] = Suc i # [Suc (Suc i)..<Suc (Suc i) + length rest]"
    by (simp add: upt_rec)
  with Cons.IH [OF go [OF ns] ft] e a show ?case by simp
qed

lemma run_steps_stopped:
  assumes "observer_passive eng"
  shows "run_steps eng n i steps st = Inr final \<Longrightarrow> pipelineSuccess st \<Longrightarrow>
   \<not> pipelineSuccess final \<Longrightarrow>
   \<exists>k<length steps.
     \<not> continueOnError (steps ! k)
     \<and> stepResults final \<noteq> []
     \<and> \<not> sr_success (last (stepResults final))
     \<and> sr_stepId (last (stepResults final)) = step_id (steps ! k)
     \<and> attempted (events final) = attempted (events st) @ [Suc i..<Suc i + Suc k]"
proof (induction steps arbitrary: i st)
  case Nil
  then show ?case by simp
next
  case (Cons step rest)
  from run_steps_iteration [OF Cons.prems(1)]
  obtain st' stop where it: "iteration eng n i step st = Inr (st', stop)"
    and fin: "stop \<Longrightarrow> final = st'"
    and go: "\<not> stop \<Longrightarrow> run_steps eng n (Suc i) rest st' = Inr final"
    by blast
  have a: "attempted (events st') = attempted (events st) @ [Suc i]"
    using it by (rule iteration_attempted)
  from iteration_passive [OF assms it] obtain x where
    stop: "stop \<longleftrightarrow> execution_fails eng step st \<and> \<not> continueOnError step"
    and x: "stepResults st' = stepResults st @ [x]" "sr_stepId x = step_id step"
      "sr_success x \<longleftrightarrow> \<not> execution_fails eng step st"
    by blast
  show ?case
  proof (cases stop)
    case True
    with stop x a fin have "0 < length (step # rest) \<and> \<not> continueOnError ((step # rest) ! 0)
       \<and> stepResults final \<noteq> []
       \<and> \<not> sr_success (last (stepResults final))
       \<and> sr_stepId (last (stepResults final)) = step_id ((step # rest) ! 0)
       \<and> attempted (events final) = attempted (events st) @ [Suc i..<Suc i + Suc 0]"
      by simp
    then show ?thesis by blast
  next
    case False
    then have s': "pipelineSuccess st'"
      using iteration_success [OF it] Cons.prems(2) by simp
    from Cons.IH [OF go [OF False] s' Cons.prems(3)] obtain k where k: "k < length rest"
      "\<not> continueOnError (rest ! k)"
      "stepResults final \<noteq> []"
      "\<not> sr_success (last (stepResults final))"
      "sr_stepId (last (stepResults final)) = step_id (rest ! k)"
      "attempted (events final) = attempted (events st') @ [Suc (Suc i)..<Suc (Suc i) + Suc k]"
      by blast
    have u: "[Suc i..<Suc i + Suc (Suc k)] = Suc i # [Suc (Suc i)..<Suc (Suc i) + Suc k]"
      by (simp add: upt_rec)
    have "Suc k < length (step # rest)" using k(1) by simp
    moreover have "\<not> continueOnError ((step # rest) ! Suc k)" using k(2) by simp
    moreover have "sr_stepId (last (stepResults final)) = step_id ((step # rest) ! Suc k)"
      using k(5) by simp
    moreover have "attempted (events final)
         = attempted (events st) @ [Suc i..<Suc i + Suc (Suc k)]"
      using k(6) a u by simp
    ultimately show ?thesis using k(3,4) by blast
  qed
qed


section \<open>Results of runs\<close>

text \<open>
  C7 (as amended). With an observer that neither throws nor changes the StepResult it
  is handed (or with none), a run that returns has \<open>success = true\<close> exactly when every
  step whose execution fails, in the state in which the run reaches it, has
  \<open>continueOnError\<close> set; then the terminal error is \<open>null\<close> and every step has been
  started. A run with \<open>success = false\<close> ended at a step whose \<open>continueOnError\<close> is
  falsy: the last StepResult is a failure of that step and no later step was started.
\<close>

theorem success_iff_failures_tolerated:
  assumes "pipelines eng pid = Some p" "pd_steps p = Some steps"
    and "runPipeline eng pid ctx = Inr (r, ev)"
    and "observer_passive eng"
  shows "(pr_success r
            \<longleftrightarrow> failures_tolerated eng (length steps) 0 steps (initial_state p ctx))
       \<and> (pr_success r \<longrightarrow> pr_error r = Null \<and> attempted ev = [1..<Suc (length steps)])
       \<and> (\<not> pr_success r \<longrightarrow>
            (\<exists>k<length steps.
               \<not> continueOnError (steps ! k) \<and> pr_steps r \<noteq> []
               \<and> \<not> sr_success (last (pr_steps r))
               \<and> sr_stepId (last (pr_steps r)) = step_id (steps ! k)
               \<and> attempted ev = [1..<Suc (Suc k)]))"
proof -
  let ?init = "initial_state p ctx"
  from runPipeline_Inr [OF assms(1-3)] obtain final where
    run: "run_steps eng (length steps) 0 steps ?init = Inr final"
    and r: "r = result_of p final" and ev: "ev = events final"
    by blast
  have s: "pr_success r = pipelineSuccess final" "pr_error r = pipelineError final"
    "pr_steps r = stepResults final"
    by (simp_all add: r result_of_def)
  have a: "pr_success r \<longleftrightarrow> failures_tolerated eng (length steps) 0 steps ?init"
    using run_steps_success [OF assms(4) run] by (simp add: s(1) initial_state_simps(1))
  have b: "pr_error r = Null \<and> attempted ev = [1..<Suc (length steps)]" if "pr_success r"
    using run_steps_complete [OF assms(4) run] that a
    by (simp add: s(2) ev initial_state_simps(2,3))
  have c: "\<exists>k<length steps.
               \<not> continueOnError (steps ! k) \<and> pr_steps r \<noteq> []
               \<and> \<not> sr_success (last (pr_steps r))
               \<and> sr_stepId (last (pr_steps r)) = step_id (steps ! k)
               \<and> attempted ev = [1..<Suc (Suc k)]" if "\<not> pr_success r"
    using run_steps_stopped [OF assms(4) run] that
    by (simp add: s ev initial_state_simps(1,3))
  from a b c show ?thesis by blast
qed


text \<open>
  C5 (as amended). A step that throws (a value other than \<open>undefined\<close> or \<open>null\<close>) is
  caught and turned into a StepResult with the step's id and name, \<open>success = false\<close>,
  \<open>data = null\<close>, the message of the error and duration 0; the context, the actions of
  the run and the observer are left alone. For a step that returns \<open>success = false\<close>
  (the observer not throwing \<open>undefined\<close> or \<open>null\<close>, the step id not being \<open>__proto__\<close>),
  the returned StepResult, which carries the step's id and name, is pushed and handed
  to the observer, if one is configured, and stays in the list as the observer leaves
  it; its data is stored in the context under the step id and its actions are appended.
\<close>

theorem thrown_step_is_recorded:
  "(executeStep eng step (stepResults st) (executionContext st) = Inl (Thrown m) \<longrightarrow>
      (\<exists>st' stop.
         iteration eng n i step st = Inr (st', stop)
         \<and> stepResults st' = stepResults st @ [failure_result step m]
         \<and> executionContext st' = executionContext st
         \<and> actions st' = actions st
         \<and> events st' = events st @ [StepLog (i + 1) n (step_name step)]))
   \<and> (executeStep eng step (stepResults st) (executionContext st) = Inr res
        \<and> \<not> sr_success res
        \<and> snd (observer_outcome eng res (i + 1) n) \<noteq> Some Nullish
        \<and> js_str (step_id step) \<noteq> ''__proto__'' \<longrightarrow>
      (\<exists>st' stop.
         iteration eng n i step st = Inr (st', stop)
         \<and> sr_stepId res = step_id step \<and> sr_stepName res = step_name step
         \<and> take (Suc (length (stepResults st))) (stepResults st')
             = stepResults st @ [fst (observer_outcome eng res (i + 1) n)]
         \<and> ctx_stepResults (executionContext st')
             = (ctx_stepResults (executionContext st))(js_str (step_id step) \<mapsto> sr_data res)
         \<and> actions st'
             = actions st @ (case sr_actions res of Some acts \<Rightarrow> acts | None \<Rightarrow> [])
         \<and> events st'
             = events st @ StepLog (i + 1) n (step_name step)
                 # (case onStepComplete eng of
                      None \<Rightarrow> []
                    | Some callback \<Rightarrow> [Observed res (i + 1) n])))"
proof (intro conjI impI)
  assume "executeStep eng step (stepResults st) (executionContext st) = Inl (Thrown m)"
  then show "\<exists>st' stop.
         iteration eng n i step st = Inr (st', stop)
         \<and> stepResults st' = stepResults st @ [failure_result step m]
         \<and> executionContext st' = executionContext st
         \<and> actions st' = actions st
         \<and> events st' = events st @ [StepLog (i + 1) n (step_name step)]"
    by (cases "continueOnError step") (auto simp: iteration_thrown catch_block_message)
next
  assume a: "executeStep eng step (stepResults st) (executionContext st) = Inr res
        \<and> \<not> sr_success res
        \<and> snd (observer_outcome eng res (i + 1) n) \<noteq> Some Nullish
        \<and> js_str (step_id step) \<noteq> ''__proto__''"
  then have e: "executeStep eng step (stepResults st) (executionContext st) = Inr res"
    by simp
  have names: "sr_stepId res = step_id step \<and> sr_stepName res = step_name step"
    using e by (auto simp: executeStep_def Let_def split: sum.splits if_splits)
  let ?after = "returned_state eng n i step res st"
  have "\<exists>st' stop. iteration eng n i step st = Inr (st', stop)
          \<and> take (Suc (length (stepResults st))) (stepResults st')
               = stepResults st @ [fst (observer_outcome eng res (i + 1) n)]
          \<and> executionContext st' = executionContext ?after
          \<and> actions st' = actions ?after \<and> events st' = events ?after"
  proof (cases "snd (observer_outcome eng res (i + 1) n)")
    case None
    with e show ?thesis
      by (auto simp: iteration_returned returned_state_simps)
  next
    case (Some x)
    with a obtain m' where "x = Thrown m'" by (cases x) auto
    with Some e show ?thesis
      by (cases "continueOnError step")
         (auto simp: iteration_returned catch_block_message returned_state_simps)
  qed
  with names a show "\<exists>st' stop.
         iteration eng n i step st = Inr (st', stop)
         \<and> sr_stepId res = step_id step \<and> sr_stepName res = step_name step
         \<and> take (Suc (length (stepResults st))) (stepResults st')
             = stepResults st @ [fst (observer_outcome eng res (i + 1) n)]
         \<and> ctx_stepResults (executionContext st')
             = (ctx_stepResults (executionContext st))(js_str (step_id step) \<mapsto> sr_data res)
         \<and> actions st'
             = actions st @ (case sr_actions res of Some acts \<Rightarrow> acts | None \<Rightarrow> [])
         \<and> events st'
             = events st @ StepLog (i + 1) n (step_name step)
                 # (case onStepComplete eng of
                      None \<Rightarrow> []
                    | Some callback \<Rightarrow> [Observed res (i + 1) n])"
    by (auto simp: returned_state_simps assign_property_def)
qed


section \<open>Runs of the example engines\<close>

lemmas example_defs =
  engine_with_def idle_engine_def abc_def solo_def mixed_def plain_pipeline_def plain_step_def
  terminal_step_def js_str_def provider_def create_files_def onlooker_def faultfinder_def
  heckler_def whitewasher_def refuser_def

lemmas run_defs =
  iteration_def executeStep_def catch_block_def record_result_def notify_def
  failure_result_def initial_state_def allow_plain_def message_of_def assign_property_def
  Let_def

lemma engine_with_lookup: "pipelines (engine_with (plain_pipeline name steps approval)) name
    = Some (plain_pipeline name steps approval)"
  by (simp add: engine_with_def plain_pipeline_def js_str_def)

lemma engine_with_admitted: "pipeline_admitted (engine_with d) p"
  by (simp add: pipeline_admitted_def engine_with_def idle_engine_def)

lemma engine_with_passive: "observer_passive (engine_with d)"
  by (simp add: observer_passive_def observer_outcome_def engine_with_def idle_engine_def)

lemma provider_no_nullish: "provider step input ctx \<noteq> Inl Nullish"
  by (simp add: provider_def)

lemma engine_with_errors_only:
  "throws_errors_only ((engine_with d)\<lparr>policyEngine := policy\<rparr>)"
  by (simp add: throws_errors_only_def observer_outcome_def requestApproval_def
      engine_with_def idle_engine_def provider_no_nullish)

text \<open>
  Witness: a step denied by the step-level policy, a step for which the provider throws
  and a step that succeeds; both failures are StepResults of the returned result.
\<close>

theorem runPipeline_captures_failures_witness:
  "(case runPipeline ((engine_with mixed)\<lparr>policyEngine := Some deny_first_policy\<rparr>)
           ''mixed'' Map.empty of
      Inl e \<Rightarrow> False
    | Inr (r, ev) \<Rightarrow>
        pr_steps r
          = [failure_result (terminal_step ''T'' True)
               (Msg ''Step blocked by policy: Agent terminalAgent is denied by policy rule: deny-terminal''),
             failure_result (plain_step ''X'' True) (Msg ''provider unavailable''),
             \<lparr>sr_stepId = Some ''A'', sr_stepName = Some ''A'', sr_success = True,
              sr_data = JStr ''out'', sr_error = Undefined, sr_duration = 1,
              sr_actions = Some [create_files [''src/a.js'']]\<rparr>]
        \<and> pr_success r)"
proof -
  let ?E = "(engine_with mixed)\<lparr>policyEngine := Some deny_first_policy\<rparr>"
  let ?steps = "[terminal_step ''T'' True, plain_step ''X'' True, plain_step ''A'' False]"
  let ?init = "initial_state mixed Map.empty"
  have h1: "pipelines ?E ''mixed'' = Some mixed"
    using engine_with_lookup [of "''mixed''" ?steps False] by (simp add: mixed_def)
  have h2: "pd_steps mixed = Some ?steps"
    by (simp add: mixed_def plain_pipeline_def)
  have pol: "checkStep deny_first_policy (Some ''terminalAgent'')
               = denied ''Agent terminalAgent is denied by policy rule: deny-terminal''"
    "checkStep deny_first_policy (Some ''base'') = allow_plain"
    "checkPipeline deny_first_policy (Some ''mixed'') = allow_plain"
    by (simp_all add: checkStep_def checkPipeline_def deny_first_policy_def deny_deploy_def
        deny_terminal_def allow_deploy_def allow_terminal_def applies_def target_matches_def
        js_str_def)
  have eo: "throws_errors_only ?E"
    by (rule engine_with_errors_only)
  have run: "runPipeline ?E ''mixed'' Map.empty \<noteq> Inl e" for e
    using runPipeline_captures_failures
            [OF eo, where pid = "''mixed''" and ctx = Map.empty and e = e] h1 h2 pol
    by (simp add: pipeline_admitted_def allow_plain_def mixed_def plain_pipeline_def)
  then obtain r ev where rev: "runPipeline ?E ''mixed'' Map.empty = Inr (r, ev)"
    by (cases "runPipeline ?E ''mixed'' Map.empty") auto
  have cap: "concat (map (\<lambda>(i, step, st). captured ?E (length ?steps) i step st)
                    (started ?E (length ?steps) 0 ?steps ?init))
          = [failure_result (terminal_step ''T'' True)
               (Msg ''Step blocked by policy: Agent terminalAgent is denied by policy rule: deny-terminal''),
             failure_result (plain_step ''X'' True) (Msg ''provider unavailable''),
             \<lparr>sr_stepId = Some ''A'', sr_stepName = Some ''A'', sr_success = True,
              sr_data = JStr ''out'', sr_error = Undefined, sr_duration = 1,
              sr_actions = Some [create_files [''src/a.js'']]\<rparr>]"
    by (simp add: captured_def observer_outcome_def pol denied_def example_defs run_defs)
  have succ: "pr_success r"
    using rev h1 h2 pol
    by (auto simp: runPipeline_def result_of_def denied_def example_defs run_defs
        split: if_splits)
  from runPipeline_captures_failures
         [OF eo, where pid = "''mixed''" and ctx = Map.empty and p = mixed
            and steps = ?steps and r = r and ev = ev]
    h1 h2 rev cap succ
  show ?thesis by simp
qed

text \<open>
  Counterexample to C4 as stated: a pipeline-level policy denial and a rejected
  pipeline-level approval are thrown to the caller.
\<close>

theorem pipeline_gate_throws:
  "runPipeline
     ((engine_with (plain_pipeline ''deploy'' [plain_step ''A'' False] False))
        \<lparr>policyEngine := Some deny_first_policy\<rparr>) ''deploy'' Map.empty
     = Inl (Propagated
             (Error ''Pipeline blocked by policy: Pipeline deploy is denied by policy rule: deny-deploy''))
   \<and> runPipeline
       ((engine_with (plain_pipeline ''guarded'' [plain_step ''A'' False] True))
          \<lparr>onApprovalRequired := Some refuser\<rparr>) ''guarded'' Map.empty
     = Inl (Propagated (Error ''Pipeline execution rejected by user''))"
  by (simp add: runPipeline_def requestApproval_def checkPipeline_def deny_first_policy_def
      deny_deploy_def applies_def target_matches_def denied_def allow_plain_def
      example_defs)


lemma abc_run:
  "\<exists>final. run_steps (engine_with (abc cont)) 3 0
              [plain_step ''A'' False, plain_step ''B'' cont, plain_step ''C'' False]
              (initial_state (abc cont) Map.empty) = Inr final
           \<and> runPipeline (engine_with (abc cont)) ''abc'' Map.empty
               = Inr (result_of (abc cont) final, events final)"
proof -
  let ?E = "engine_with (abc cont)"
  let ?steps = "[plain_step ''A'' False, plain_step ''B'' cont, plain_step ''C'' False]"
  have eo: "throws_errors_only ?E"
    using engine_with_errors_only [where d = "abc cont" and policy = None]
    by (simp add: engine_with_def idle_engine_def)
  from run_steps_no_escape [OF eo] obtain final where
    f: "run_steps ?E (length ?steps) 0 ?steps (initial_state (abc cont) Map.empty) = Inr final"
    by blast
  have h1: "pipelines ?E ''abc'' = Some (abc cont)"
    unfolding abc_def by (rule engine_with_lookup)
  have h2: "pd_steps (abc cont) = Some ?steps"
    by (simp add: abc_def plain_pipeline_def)
  have rp: "runPipeline ?E ''abc'' Map.empty = Inr (result_of (abc cont) final, events final)"
    by (rule runPipeline_returns [OF h1 h2 engine_with_admitted _ f])
       (simp add: abc_def plain_pipeline_def)
  have l: "length ?steps = 3"
    by simp
  from f have "run_steps ?E 3 0 ?steps (initial_state (abc cont) Map.empty) = Inr final"
    by (simp only: l)
  with rp show ?thesis by blast
qed



text \<open>
  Witness: with \<open>continueOnError\<close> set on the failing step \<open>B\<close> the run succeeds, although
  the StepResult of \<open>B\<close> has \<open>success = false\<close>.
\<close>

theorem success_iff_failures_tolerated_witness:
  "(case runPipeline (engine_with (abc True)) ''abc'' Map.empty of
      Inl e \<Rightarrow> False
    | Inr (r, ev) \<Rightarrow>
        pr_success r \<and> pr_error r = Null \<and> attempted ev = [1, 2, 3]
        \<and> map sr_success (pr_steps r) = [True, False, True])"
proof -
  let ?E = "engine_with (abc True)"
  let ?steps = "[plain_step ''A'' False, plain_step ''B'' True, plain_step ''C'' False]"
  let ?init = "initial_state (abc True) Map.empty"
  have h1: "pipelines ?E ''abc'' = Some (abc True)"
    unfolding abc_def by (rule engine_with_lookup)
  have h2: "pd_steps (abc True) = Some ?steps"
    by (simp add: abc_def plain_pipeline_def)
  from abc_run [of True] obtain final where
    f: "run_steps ?E 3 0 ?steps ?init = Inr final"
    and h3: "runPipeline ?E ''abc'' Map.empty = Inr (result_of (abc True) final, events final)"
    by blast
  have ft: "failures_tolerated ?E (length ?steps) 0 ?steps ?init"
    by (simp add: failures_tolerated_def execution_fails_def example_defs run_defs)
  have ss: "map sr_success (stepResults final) = [True, False, True]"
    using f by (auto simp: example_defs run_defs)
  have u: "[1..<Suc (length ?steps)] = [1, 2, 3]"
    by (simp add: upt_rec)
  from success_iff_failures_tolerated [OF h1 h2 h3 engine_with_passive] ft ss u
  show ?thesis
    unfolding h3 by (simp add: result_of_def)
qed

text \<open>
  Counterexample to C7 as stated: the only step is executed and its execution succeeds,
  the observer throws on the result, and the run has \<open>success = false\<close>.
\<close>

theorem observer_error_fails_run:
  "\<not> execution_fails ((engine_with (solo ''A'' False))\<lparr>onStepComplete := Some heckler\<rparr>)
        (plain_step ''A'' False) (initial_state (solo ''A'' False) Map.empty)
   \<and> pd_steps (solo ''A'' False) = Some [plain_step ''A'' False]
   \<and> (case runPipeline ((engine_with (solo ''A'' False))\<lparr>onStepComplete := Some heckler\<rparr>)
              ''A'' Map.empty of
        Inl e \<Rightarrow> False
      | Inr (r, ev) \<Rightarrow>
          \<not> pr_success r \<and> pr_error r = Msg ''observer failed'' \<and> attempted ev = [1]
          \<and> map sr_success (pr_steps r) = [True, False])"
  by (simp add: runPipeline_def execution_fails_def example_defs run_defs result_of_def)


text \<open>
  Witness: the step \<open>X\<close>, for which the provider throws, and the step \<open>B\<close>, for which it
  returns \<open>success = false\<close>.
\<close>

theorem thrown_step_is_recorded_witness:
  "(case iteration ((engine_with (solo ''X'' True))\<lparr>onStepComplete := Some onlooker\<rparr>) 1 0
           (plain_step ''X'' True) (initial_state (solo ''X'' True) Map.empty) of
      Inl e \<Rightarrow> False
    | Inr (st', stop) \<Rightarrow>
        stepResults st' = [failure_result (plain_step ''X'' True) (Msg ''provider unavailable'')]
        \<and> ctx_stepResults (executionContext st') = Map.empty
        \<and> actions st' = []
        \<and> events st' = [StepLog 1 1 (Some ''X'')])
   \<and> (case iteration ((engine_with (solo ''B'' True))\<lparr>onStepComplete := Some onlooker\<rparr>) 1 0
           (plain_step ''B'' True) (initial_state (solo ''B'' True) Map.empty) of
      Inl e \<Rightarrow> False
    | Inr (st', stop) \<Rightarrow>
        map sr_success (take 1 (stepResults st')) = [False]
        \<and> ctx_stepResults (executionContext st') = [''B'' \<mapsto> JStr ''out'']
        \<and> actions st' = [create_files [''src/a.js'']]
        \<and> length (events st') = 2)"
proof -
  let ?EX = "(engine_with (solo ''X'' True))\<lparr>onStepComplete := Some onlooker\<rparr>"
  let ?EB = "(engine_with (solo ''B'' True))\<lparr>onStepComplete := Some onlooker\<rparr>"
  let ?X = "plain_step ''X'' True"
  let ?B = "plain_step ''B'' True"
  let ?iX = "initial_state (solo ''X'' True) Map.empty"
  let ?iB = "initial_state (solo ''B'' True) Map.empty"
  let ?res = "\<lparr>sr_stepId = Some ''B'', sr_stepName = Some ''B'', sr_success = False,
              sr_data = JStr ''out'', sr_error = Undefined, sr_duration = 1,
              sr_actions = Some [create_files [''src/a.js'']]\<rparr>"
  have x: "executeStep ?EX ?X (stepResults ?iX) (executionContext ?iX)
             = Inl (Error ''provider unavailable'')"
    by (simp add: example_defs run_defs)
  have b: "executeStep ?EB ?B (stepResults ?iB) (executionContext ?iB) = Inr ?res
           \<and> \<not> sr_success ?res
           \<and> snd (observer_outcome ?EB ?res (0 + 1) 1) \<noteq> Some Nullish
           \<and> js_str (step_id ?B) \<noteq> ''__proto__''"
    by (simp add: observer_outcome_def example_defs run_defs)
  have i: "stepResults ?iX = []" "actions ?iX = []" "events ?iX = []"
    "ctx_stepResults (executionContext ?iX) = Map.empty"
    "stepResults ?iB = []" "actions ?iB = []" "events ?iB = []"
    "ctx_stepResults (executionContext ?iB) = Map.empty"
    by (simp_all add: initial_state_def)
  have c: "step_name ?X = Some ''X''" "js_str (step_id ?B) = ''B''"
    "step_name ?B = Some ''B''" "onStepComplete ?EB = Some onlooker"
    "\<And>r position n. observer_outcome ?EB r position n = (r, None)"
    by (simp_all add: plain_step_def js_str_def observer_outcome_def onlooker_def)
  from thrown_step_is_recorded
         [where eng = ?EX and step = ?X and st = ?iX and m = "Msg ''provider unavailable''"
            and n = 1 and i = 0 and res = ?res] x
  obtain sx stopx where sx: "iteration ?EX 1 0 ?X ?iX = Inr (sx, stopx)"
    "stepResults sx = stepResults ?iX @ [failure_result ?X (Msg ''provider unavailable'')]"
    "executionContext sx = executionContext ?iX" "actions sx = actions ?iX"
    "events sx = events ?iX @ [StepLog (0 + 1) 1 (step_name ?X)]"
    by blast
  from thrown_step_is_recorded
         [where eng = ?EB and step = ?B and st = ?iB and m = "Msg ''provider unavailable''"
            and n = 1 and i = 0 and res = ?res] b
  obtain sb stopb where sb: "iteration ?EB 1 0 ?B ?iB = Inr (sb, stopb)"
    "take (Suc (length (stepResults ?iB))) (stepResults sb)
       = stepResults ?iB @ [fst (observer_outcome ?EB ?res (0 + 1) 1)]"
    "ctx_stepResults (executionContext sb)
       = (ctx_stepResults (executionContext ?iB))(js_str (step_id ?B) \<mapsto> sr_data ?res)"
    "actions sb = actions ?iB @ (case sr_actions ?res of Some acts \<Rightarrow> acts | None \<Rightarrow> [])"
    "events sb = events ?iB @ StepLog (0 + 1) 1 (step_name ?B)
                   # (case onStepComplete ?EB of
                        None \<Rightarrow> []
                      | Some callback \<Rightarrow> [Observed ?res (0 + 1) 1])"
    by blast
  from sx sb show ?thesis
    by (simp add: i c)
qed

text \<open>
  Counterexample to C5 as stated: after a run whose only step throws, the step-output
  map has no entry for the step, the action list is empty, and the configured observer
  was not called; after a run whose only step returns \<open>success = false\<close> all three have
  happened.
\<close>

theorem thrown_step_leaves_no_trace:
  "(case runPipeline ((engine_with (solo ''X'' True))\<lparr>onStepComplete := Some onlooker\<rparr>)
           ''X'' Map.empty of
      Inl e \<Rightarrow> False
    | Inr (r, ev) \<Rightarrow>
        pr_steps r = [failure_result (plain_step ''X'' True) (Msg ''provider unavailable'')]
        \<and> ctx_stepResults (pr_context r) ''X'' = None
        \<and> pr_actions r = []
        \<and> ev = [StepLog 1 1 (Some ''X'')])
   \<and> (case runPipeline ((engine_with (solo ''B'' True))\<lparr>onStepComplete := Some onlooker\<rparr>)
           ''B'' Map.empty of
      Inl e \<Rightarrow> False
    | Inr (r, ev) \<Rightarrow>
        map sr_success (pr_steps r) = [False]
        \<and> ctx_stepResults (pr_context r) ''B'' = Some (JStr ''out'')
        \<and> pr_actions r = [create_files [''src/a.js'']]
        \<and> ev = [StepLog 1 1 (Some ''B''), Observed (hd (pr_steps r)) 1 1])"
  by (simp add: runPipeline_def example_defs run_defs result_of_def)

section \<open>Glob matcher: the translation read token by token\<close>

subsection \<open>The replacements\<close>

lemma replace_one_skip:
  "c \<noteq> x \<Longrightarrow> replace_all [x] rep (c # s) = c # replace_all [x] rep s"
  by simp

lemma replace_one_hit: "replace_all [x] rep (x # s) = rep @ replace_all [x] rep s"
  by simp

lemma replace_stars_skip:
  "c \<noteq> CHR ''*'' \<Longrightarrow> replace_all ''**'' rep (c # s) = c # replace_all ''**'' rep s"
  by simp

lemma replace_stars_hit:
  "replace_all ''**'' rep (CHR ''*'' # CHR ''*'' # s) = rep @ replace_all ''**'' rep s"
  by simp

lemma replace_stars_single:
  "s = [] \<or> hd s \<noteq> CHR ''*'' \<Longrightarrow>
   replace_all ''**'' rep (CHR ''*'' # s) = CHR ''*'' # replace_all ''**'' rep s"
  by (cases s) auto

lemma replace_sect_skip:
  "c \<noteq> sect \<Longrightarrow>
   replace_all [sect, sect, sect] rep (c # s) = c # replace_all [sect, sect, sect] rep s"
  by simp

lemma replace_sect_hit:
  "replace_all [sect, sect, sect] rep (sect # sect # sect # s)
     = rep @ replace_all [sect, sect, sect] rep s"
  by simp

lemma glob_to_regex_Nil: "glob_to_regex [] = []"
  by (simp add: glob_to_regex_def)

lemma glob_to_regex_plain:
  assumes "ordinary c" "c \<noteq> sect"
  shows "glob_to_regex (c # s) = c # glob_to_regex s"
proof -
  from assms(1) have "c \<noteq> CHR ''.''" "c \<noteq> CHR ''*''" "c \<noteq> CHR ''?''"
    by (simp_all add: ordinary_def)
  with assms(2) show ?thesis
    by (simp add: glob_to_regex_def)
qed

lemma glob_to_regex_dot:
  "glob_to_regex (CHR ''.'' # s) = bslash # CHR ''.'' # glob_to_regex s"
  by (simp add: glob_to_regex_def)

lemma glob_to_regex_question:
  "glob_to_regex (CHR ''?'' # s) = CHR ''.'' # glob_to_regex s"
  by (simp add: glob_to_regex_def)

lemma glob_to_regex_stars:
  "glob_to_regex (CHR ''*'' # CHR ''*'' # s) = ''.*'' @ glob_to_regex s"
  by (simp add: glob_to_regex_def)

lemma escape_dots_head:
  "s = [] \<or> hd s \<noteq> CHR ''*'' \<Longrightarrow>
   replace_all ''.'' [bslash, CHR ''.''] s = []
   \<or> hd (replace_all ''.'' [bslash, CHR ''.''] s) \<noteq> CHR ''*''"
  by (cases s) auto

lemma glob_to_regex_star:
  assumes "s = [] \<or> hd s \<noteq> CHR ''*''"
  shows "glob_to_regex (CHR ''*'' # s) = ''[^/]*'' @ glob_to_regex s"
proof -
  let ?s1 = "replace_all ''.'' [bslash, CHR ''.''] s"
  have "replace_all ''**'' [sect, sect, sect] (CHR ''*'' # ?s1)
          = CHR ''*'' # replace_all ''**'' [sect, sect, sect] ?s1"
    using escape_dots_head [OF assms] by (rule replace_stars_single)
  then show ?thesis
    by (simp add: glob_to_regex_def)
qed

lemma glob_to_regex_tokens:
  "list_all glob_char p \<Longrightarrow> glob_to_regex p = concat (map render (glob_tokens p))"
proof (induction p rule: glob_tokens.induct)
  case 1
  show ?case by (simp add: glob_to_regex_Nil)
next
  case (2 c cs)
  show ?case
  proof (cases "c = CHR ''*''")
    case star: True
    show ?thesis
    proof (cases cs)
      case Nil
      with star show ?thesis
        using glob_to_regex_star [of "[]"] by (simp add: render_def glob_to_regex_Nil)
    next
      case (Cons d ds)
      show ?thesis
      proof (cases "d = CHR ''*''")
        case True
        with star Cons 2 show ?thesis
          by (simp add: glob_to_regex_stars render_def)
      next
        case False
        with star Cons 2 show ?thesis
          using glob_to_regex_star [of cs] by (simp add: render_def)
      qed
    qed
  next
    case nostar: False
    show ?thesis
    proof (cases "c = CHR ''?''")
      case True
      with nostar 2 show ?thesis
        by (simp add: glob_to_regex_question render_def)
    next
      case noq: False
      show ?thesis
      proof (cases "c = CHR ''.''")
        case True
        with 2 show ?thesis
          by (simp add: glob_to_regex_dot render_def)
      next
        case False
        with nostar noq 2 have "ordinary c" "c \<noteq> sect"
          by (simp_all add: glob_char_def)
        with nostar noq False 2 show ?thesis
          by (simp add: glob_to_regex_plain render_def)
      qed
    qed
  qed
qed


subsection \<open>Parsing the translation\<close>

lemma ordinary_not_special:
  "ordinary c \<Longrightarrow>
   c \<noteq> CHR ''*'' \<and> c \<noteq> CHR ''$'' \<and> c \<noteq> CHR ''.'' \<and> c \<noteq> bslash \<and> c \<noteq> CHR ''[''
   \<and> c \<noteq> CHR ''?''"
  by (simp add: ordinary_def)

lemma glob_char_token: "glob_char c \<Longrightarrow> token_ok (Exactly c) \<or> c = CHR ''*'' \<or> c = CHR ''?''"
  by (simp add: glob_char_def token_ok_def) blast

lemma glob_tokens_ok: "list_all glob_char p \<Longrightarrow> list_all token_ok (glob_tokens p)"
proof (induction p rule: glob_tokens.induct)
  case 1
  show ?case by simp
next
  case (2 c cs)
  then have c: "glob_char c" and cs: "list_all glob_char cs"
    by simp_all
  have special: "token_ok AnyPath" "token_ok AnySegment" "token_ok AnyOne"
    by (simp_all add: token_ok_def)
  show ?case
  proof (cases "c = CHR ''*''")
    case star: True
    show ?thesis
    proof (cases cs)
      case Nil
      with star special show ?thesis by simp
    next
      case (Cons d ds)
      show ?thesis
      proof (cases "d = CHR ''*''")
        case True
        with star Cons cs "2.IH"(1) special show ?thesis by simp
      next
        case False
        with star Cons cs "2.IH"(2) special show ?thesis by simp
      qed
    qed
  next
    case nostar: False
    show ?thesis
    proof (cases "c = CHR ''?''")
      case True
      with nostar cs "2.IH"(3) special show ?thesis by simp
    next
      case False
      with nostar c have "token_ok (Exactly c)"
        using glob_char_token by blast
      with nostar False cs "2.IH"(4) show ?thesis by simp
    qed
  qed
qed

lemma render_head:
  "token_ok t \<Longrightarrow> render t \<noteq> [] \<and> hd (render t) \<noteq> CHR ''*'' \<and> hd (render t) \<noteq> CHR ''$''"
proof (cases t)
  case (Exactly c)
  assume "token_ok t"
  with Exactly have "c = CHR ''.'' \<or> ordinary c"
    by (simp add: token_ok_def)
  then show ?thesis
  proof
    assume "c = CHR ''.''"
    with Exactly show ?thesis by (simp add: render_def)
  next
    assume "ordinary c"
    from ordinary_not_special [OF this] Exactly show ?thesis by (simp add: render_def)
  qed
qed (simp_all add: render_def)

lemma rendered_head:
  "list_all token_ok ts \<Longrightarrow>
   \<exists>q r. concat (map render ts) @ ''$'' = q # r \<and> q \<noteq> CHR ''*''"
proof (cases ts)
  case Nil
  then show ?thesis by simp
next
  case (Cons t ts')
  assume "list_all token_ok ts"
  with Cons have "render t \<noteq> []" "hd (render t) \<noteq> CHR ''*''"
    using render_head [of t] by simp_all
  then obtain q r where "render t = q # r" "q \<noteq> CHR ''*''"
    by (cases "render t") auto
  with Cons show ?thesis by simp
qed

lemma parse_body_one:
  assumes "parse_atom s = Some (a, q # r)" "q \<noteq> CHR ''*''" "s \<noteq> ''$''"
  shows "parse_body s = map_option ((#) (One a)) (parse_body (q # r))"
  using assms by (subst parse_body.simps) simp

lemma parse_body_star:
  assumes "parse_atom s = Some (a, CHR ''*'' # r)" "s \<noteq> ''$''"
  shows "parse_body s = map_option ((#) (Star a)) (parse_body r)"
  using assms by (subst parse_body.simps) simp

lemma parse_body_token:
  assumes "token_ok t" "rest = q # r" "q \<noteq> CHR ''*''"
  shows "parse_body (render t @ rest) = map_option ((#) (item_of t)) (parse_body rest)"
proof (cases t)
  case AnyPath
  have "parse_body (CHR ''.'' # CHR ''*'' # rest)
          = map_option ((#) (Star AnyChar)) (parse_body rest)"
    by (rule parse_body_star) simp_all
  with AnyPath show ?thesis by (simp add: render_def item_of_def)
next
  case AnySegment
  have "parse_body (CHR ''['' # ''^/]'' @ CHR ''*'' # rest)
          = map_option ((#) (Star NotSlash)) (parse_body rest)"
    by (rule parse_body_star) simp_all
  with AnySegment show ?thesis by (simp add: render_def item_of_def)
next
  case AnyOne
  have "parse_body (CHR ''.'' # q # r) = map_option ((#) (One AnyChar)) (parse_body (q # r))"
    using assms(3) by (intro parse_body_one) simp_all
  with AnyOne assms(2) show ?thesis by (simp add: render_def item_of_def)
next
  case (Exactly c)
  show ?thesis
  proof (cases "c = CHR ''.''")
    case True
    have "parse_body (bslash # CHR ''.'' # q # r)
            = map_option ((#) (One (Lit (CHR ''.'')))) (parse_body (q # r))"
      using assms(3) by (intro parse_body_one) simp_all
    with True Exactly assms(2) show ?thesis by (simp add: render_def item_of_def)
  next
    case False
    with Exactly assms(1) have o: "ordinary c" by (simp add: token_ok_def)
    then have "c \<noteq> CHR ''.''" "c \<noteq> bslash" "c \<noteq> CHR ''[''" "c \<noteq> CHR ''$''"
      using ordinary_not_special by blast+
    with o have "parse_body (c # q # r) = map_option ((#) (One (Lit c))) (parse_body (q # r))"
      using assms(3) by (intro parse_body_one) simp_all
    with False Exactly assms(2) show ?thesis by (simp add: render_def item_of_def)
  qed
qed

lemma parse_body_end: "parse_body ''$'' = Some []"
  by (subst parse_body.simps) simp

lemma parse_body_tokens:
  "list_all token_ok ts \<Longrightarrow>
   parse_body (concat (map render ts) @ ''$'') = Some (map item_of ts)"
proof (induction ts)
  case Nil
  show ?case by (simp add: parse_body_end)
next
  case (Cons t ts)
  then have ok: "token_ok t" and oks: "list_all token_ok ts"
    by simp_all
  from rendered_head [OF oks] obtain q r where
    qr: "concat (map render ts) @ ''$'' = q # r" "q \<noteq> CHR ''*''"
    by blast
  have "parse_body (render t @ (concat (map render ts) @ ''$''))
          = map_option ((#) (item_of t)) (parse_body (concat (map render ts) @ ''$''))"
    using ok qr by (rule parse_body_token)
  with Cons.IH [OF oks] show ?case by simp
qed


subsection \<open>Matching\<close>

lemma RegExp_test_star:
  "RegExp_test (Star a # r) s
     \<longleftrightarrow> (\<exists>k \<in> {0..length s}. list_all (atom_matches a) (take k s) \<and> RegExp_test r (drop k s))"
proof (induction s)
  case Nil
  show ?case by simp
next
  case (Cons c cs)
  have "(\<exists>k \<in> {0..length (c # cs)}.
           list_all (atom_matches a) (take k (c # cs)) \<and> RegExp_test r (drop k (c # cs)))
        \<longleftrightarrow> RegExp_test r (c # cs)
            \<or> (\<exists>k \<in> {0..length cs}.
                 list_all (atom_matches a) (take (Suc k) (c # cs))
                 \<and> RegExp_test r (drop (Suc k) (c # cs)))"
  proof
    assume "\<exists>k \<in> {0..length (c # cs)}.
           list_all (atom_matches a) (take k (c # cs)) \<and> RegExp_test r (drop k (c # cs))"
    then obtain k where k: "k \<le> length (c # cs)"
      "list_all (atom_matches a) (take k (c # cs))" "RegExp_test r (drop k (c # cs))"
      by auto
    show "RegExp_test r (c # cs)
            \<or> (\<exists>k \<in> {0..length cs}.
                 list_all (atom_matches a) (take (Suc k) (c # cs))
                 \<and> RegExp_test r (drop (Suc k) (c # cs)))"
    proof (cases k)
      case 0
      with k show ?thesis by simp
    next
      case (Suc j)
      with k have "j \<in> {0..length cs}" by simp
      with k Suc show ?thesis by blast
    qed
  next
    assume "RegExp_test r (c # cs)
            \<or> (\<exists>k \<in> {0..length cs}.
                 list_all (atom_matches a) (take (Suc k) (c # cs))
                 \<and> RegExp_test r (drop (Suc k) (c # cs)))"
    then show "\<exists>k \<in> {0..length (c # cs)}.
           list_all (atom_matches a) (take k (c # cs)) \<and> RegExp_test r (drop k (c # cs))"
    proof
      assume "RegExp_test r (c # cs)"
      then have "list_all (atom_matches a) (take 0 (c # cs)) \<and> RegExp_test r (drop 0 (c # cs))"
        by simp
      moreover have "0 \<in> {0..length (c # cs)}" by simp
      ultimately show ?thesis by blast
    next
      assume "\<exists>k \<in> {0..length cs}.
                 list_all (atom_matches a) (take (Suc k) (c # cs))
                 \<and> RegExp_test r (drop (Suc k) (c # cs))"
      then obtain k where "k \<le> length cs"
        "list_all (atom_matches a) (take (Suc k) (c # cs))"
        "RegExp_test r (drop (Suc k) (c # cs))"
        by auto
      moreover from this have "Suc k \<in> {0..length (c # cs)}" by simp
      ultimately show ?thesis by blast
    qed
  qed
  with Cons show ?case by simp
qed

lemma RegExp_test_tokens:
  "RegExp_test (map item_of ts) s = glob_semantics ts s"
proof (induction ts arbitrary: s)
  case Nil
  show ?case by simp
next
  case (Cons t ts)
  show ?case
  proof (cases t)
    case AnyPath
    have "atom_matches AnyChar = (\<lambda>c. \<not> line_terminator c)"
      by (auto simp: line_terminator_def)
    with AnyPath Cons show ?thesis
      by (simp add: item_of_def RegExp_test_star)
  next
    case AnySegment
    have "atom_matches NotSlash = (\<lambda>c. c \<noteq> CHR ''/'')"
      by auto
    with AnySegment Cons show ?thesis
      by (simp add: item_of_def RegExp_test_star)
  next
    case AnyOne
    with Cons show ?thesis
      by (cases s) (simp_all add: item_of_def line_terminator_def)
  next
    case (Exactly c)
    with Cons show ?thesis
      by (cases s) (simp_all add: item_of_def)
  qed
qed

text \<open>
  For a pattern made of \<open>*\<close>, \<open>?\<close>, \<open>.\<close> and characters that are ordinary in a regular
  expression (the marker character excluded), \<open>matchGlob\<close> matches the whole candidate
  against the pattern read token by token: \<open>**\<close> matches any run of characters, \<open>/\<close>
  included and the empty run included (line terminators excluded); \<open>*\<close> matches any run
  of characters other than \<open>/\<close>; \<open>?\<close> matches one character (no line terminator);
  every other character of the pattern, \<open>/\<close> among them, matches itself.
\<close>

lemma matchGlob_reads_tokens:
  assumes "list_all glob_char pattern"
  shows "matchGlob str pattern = Some (glob_semantics (glob_tokens pattern) str)"
proof -
  have "parse_body (glob_to_regex pattern @ ''$'') = Some (map item_of (glob_tokens pattern))"
    using assms by (simp add: glob_to_regex_tokens parse_body_tokens glob_tokens_ok)
  then show ?thesis
    by (simp add: matchGlob_def RegExp_new_def RegExp_test_tokens)
qed

section \<open>The default policy and files at the root\<close>

lemma root_env_globs:
  "matchGlob ''.env'' ''**/.env'' = Some False
   \<and> matchGlob ''.env'' ''**/.env.*'' = Some False
   \<and> matchGlob ''.env'' ''**/secrets/**'' = Some False
   \<and> matchGlob ''.env'' ''**/credentials/**'' = Some False
   \<and> matchGlob ''.env'' ''**/*.key'' = Some False
   \<and> matchGlob ''.env'' ''**/*.pem'' = Some False
   \<and> matchGlob ''.env'' ''**/id_rsa*'' = Some False"
  by code_simp

lemma nested_env_glob: "matchGlob ''project/.env'' ''**/.env'' = Some True"
  by code_simp

lemma env_pattern_regex:
  "glob_to_regex ''**/.env'' = [CHR ''.'', CHR ''*'', CHR ''/'', bslash] @ ''.env''"
  by code_simp

text \<open>
  C3. The candidate \<open>.env\<close> does not match the pattern \<open>**/.env\<close>: the \<open>/\<close> after the
  leading \<open>**\<close> is a literal of the regular expression. So the default policy, whose
  deny patterns all begin with \<open>**/\<close>, allows to modify the file \<open>.env\<close> at the root,
  while it denies \<open>project/.env\<close>.
\<close>

theorem root_env_not_denied:
  "matchGlob ''.env'' ''**/.env'' = Some False
   \<and> checkAction re now getDefaultPolicy (modify_file ''.env'')
       = Some \<lparr>allowed = True, reason = None, requiresApproval = Some True\<rparr>
   \<and> checkAction re now getDefaultPolicy (modify_file ''project/.env'')
       = Some (denied
                ''File project/.env matches denied pattern **/.env (rule: deny-secrets)'')"
  by (simp add: checkAction_def matchingRules_def getDefaultPolicy_def modify_file_def
      applies_def target_matches_def check_deniedFiles_def check_allowedFiles_def
      cond_of_def check_deniedCommands_def check_allowedCommands_def command_of_def
      check_time_def root_env_globs nested_env_glob)

end
